theory Spec2Isabelle
  imports Complex_Main "HOL-Library.AList"
begin

section \<open>Values of the source language\<close>

text \<open>
  Both scrapers handle decoded JSON. A JSON number is a Python int or float; the code
  only compares numbers with \<open>==\<close> and passes them on, so one constructor carries both.
  \<open>JNull\<close> is Python's \<open>None\<close> and also the missing value (NaN, NaT) that pandas puts in a
  cell with no data: the code treats them alike (\<open>isinstance\<close> fails on both,
  \<open>pd.notnull\<close> is false on both, the CSV writer prints both as an empty field).
  \<open>JTime\<close> is a pandas timestamp, given by its epoch seconds.
\<close>

datatype json =
    JNull
  | JBool bool
  | JNum rat
  | JStr string
  | JList "json list"
  | JDict "(string \<times> json) list"
  | JTime rat

datatype py_error =
    KeyError string
  | AttributeError
  | ValueError
  | TypeError
  | RequestException string
  | OtherException string
  | OSError string
  | ParserError string

text \<open>A trace of what a run does to the outside world: the requests it sends, in order,
  and the calls of \<open>time.sleep\<close> (seconds).\<close>

datatype 'r event = Request 'r | Sleep nat

fun is_request :: "'r event \<Rightarrow> bool" where
  "is_request (Request _) = True"
| "is_request (Sleep _) = False"

definition n_requests :: "'r event list \<Rightarrow> nat" where
  "n_requests tr = length (filter is_request tr)"

definition requests_of :: "'r event list \<Rightarrow> 'r list" where
  "requests_of tr = concat (map (\<lambda>e. case e of Request r \<Rightarrow> [r] | Sleep _ \<Rightarrow> []) tr)"

definition sleeps_of :: "'r event list \<Rightarrow> nat list" where
  "sleeps_of tr = concat (map (\<lambda>e. case e of Request _ \<Rightarrow> [] | Sleep n \<Rightarrow> [n]) tr)"

section \<open>Python's truth value and iteration\<close>

text \<open>\<open>if not listings\<close> tests Python's truth value; \<open>all_listings.extend(listings)\<close>
  iterates its argument, which raises \<open>TypeError\<close> on a value that is not iterable.
  A dictionary is represented by its items in insertion order, with distinct keys.\<close>

fun py_truthy :: "json \<Rightarrow> bool" where
  "py_truthy JNull = False"
| "py_truthy (JBool b) = b"
| "py_truthy (JNum x) = (x \<noteq> 0)"
| "py_truthy (JStr s) = (s \<noteq> [])"
| "py_truthy (JList xs) = (xs \<noteq> [])"
| "py_truthy (JDict kvs) = (kvs \<noteq> [])"
| "py_truthy (JTime t) = True"

fun py_iter :: "json \<Rightarrow> py_error + json list" where
  "py_iter (JList xs) = Inr xs"
| "py_iter (JStr s) = Inr (map (\<lambda>c. JStr [c]) s)"
| "py_iter (JDict kvs) = Inr (map (\<lambda>kv. JStr (fst kv)) kvs)"
| "py_iter _ = Inl TypeError"

text \<open>\<open>d.get(k, default)\<close>: an attribute of dictionaries only.\<close>

fun py_get :: "json \<Rightarrow> string \<Rightarrow> json \<Rightarrow> py_error + json" where
  "py_get (JDict kvs) k dflt = Inr (case map_of kvs k of None \<Rightarrow> dflt | Some v \<Rightarrow> v)"
| "py_get _ k dflt = Inl AttributeError"

text \<open>\<open>d[k]\<close> with a string key: \<open>KeyError\<close> on a dictionary without the key,
  \<open>TypeError\<close> on a value that a string cannot index.\<close>

fun py_subscript :: "json \<Rightarrow> string \<Rightarrow> py_error + json" where
  "py_subscript (JDict kvs) k = (case map_of kvs k of None \<Rightarrow> Inl (KeyError k) | Some v \<Rightarrow> Inr v)"
| "py_subscript _ k = Inl TypeError"

section \<open>Bayut scraper: the price ranges\<close>

text \<open>
  \<open>price_range_scrape\<close> declares its partitions as Algolia filter strings, each a
  conjunction (\<open>AND\<close>) of comparisons of the attribute \<open>price\<close> with a constant:
  \<^verbatim>\<open>{"label": "budget2", "filter": "price >= 20001 AND price < 35000"}\<close>.
  A filter is modelled by the list of its comparisons, and \<open>matches\<close> is the meaning
  Algolia gives it on the price of a listing.
\<close>

datatype cmp = PriceLt int | PriceGe int

record price_range =
  label :: string
  filter_p :: "cmp list"

fun holds :: "cmp \<Rightarrow> int \<Rightarrow> bool" where
  "holds (PriceLt n) p = (p < n)"
| "holds (PriceGe n) p = (p \<ge> n)"

definition matches :: "price_range \<Rightarrow> int \<Rightarrow> bool" where
  "matches r p = list_all (\<lambda>c. holds c p) (filter_p r)"

definition price_ranges :: "price_range list" where
  "price_ranges =
    [ \<lparr>label = ''budget'', filter_p = [PriceLt 20000]\<rparr>,
      \<lparr>label = ''budget2'', filter_p = [PriceGe 20001, PriceLt 35000]\<rparr>,
      \<lparr>label = ''budget3'', filter_p = [PriceGe 35001, PriceLt 50000]\<rparr>,
      \<lparr>label = ''mid_range'', filter_p = [PriceGe 50001, PriceLt 75000]\<rparr>,
      \<lparr>label = ''mid_range2'', filter_p = [PriceGe 75001, PriceLt 100000]\<rparr>,
      \<lparr>label = ''mid_range22'', filter_p = [PriceGe 100001, PriceLt 120000]\<rparr>,
      \<lparr>label = ''mid_range3'', filter_p = [PriceGe 120001, PriceLt 150001]\<rparr>,
      \<lparr>label = ''mid_range4'', filter_p = [PriceGe 150001, PriceLt 200000]\<rparr>,
      \<lparr>label = ''mid_range5'', filter_p = [PriceGe 200001, PriceLt 250000]\<rparr>,
      \<lparr>label = ''mid_range6'', filter_p = [PriceGe 250001, PriceLt 275000]\<rparr>,
      \<lparr>label = ''mid_range7'', filter_p = [PriceGe 275001, PriceLt 300000]\<rparr>,
      \<lparr>label = ''mid_range8'', filter_p = [PriceGe 300001, PriceLt 400000]\<rparr>,
      \<lparr>label = ''mid_range9'', filter_p = [PriceGe 400001, PriceLt 500000]\<rparr>,
      \<lparr>label = ''mid_range10'', filter_p = [PriceGe 500001, PriceLt 600000]\<rparr>,
      \<lparr>label = ''ultra_luxury'', filter_p = [PriceGe 600001]\<rparr> ]"

text \<open>The labels of the partitions a price falls in, in declaration order.\<close>

definition partitions_of :: "int \<Rightarrow> string list" where
  "partitions_of p = map label (filter (\<lambda>r. matches r p) price_ranges)"

section \<open>Bayut scraper: one request\<close>

text \<open>
  What \<open>requests.post\<close>, \<open>raise_for_status\<close> and \<open>response.json()\<close> do at one attempt:
  they give the decoded body, or raise a \<open>RequestException\<close> (the only class
  \<open>_make_request\<close> catches), or raise something else. The network is a function of the
  number of requests sent so far and of the payload.
\<close>

text \<open>The field \<open>filters\<close> holds \<open>f"{base_filters} AND {price_range['filter']}"\<close>, as the
  pair of its two parts.\<close>

record payload =
  query :: string
  filters :: "string \<times> cmp list"
  page :: nat
  hitsPerPage :: nat

datatype http_outcome = Response json | RaisesRequestException string | RaisesOther string

type_synonym network = "nat \<Rightarrow> payload \<Rightarrow> http_outcome"

type_synonym trace = "payload event list"

definition max_retries :: nat where
  "max_retries = 3"

definition retry_delay :: nat where
  "retry_delay = 2"

text \<open>
  The body of \<open>for attempt in range(max_retries)\<close>, over the attempts still to run.
  A loop that runs out returns \<open>None\<close>, as a Python function without \<open>return\<close> does.
\<close>

fun request_loop :: "network \<Rightarrow> payload \<Rightarrow> nat list \<Rightarrow> trace \<Rightarrow> (py_error + json) \<times> trace" where
  "request_loop net p [] tr = (Inr JNull, tr)"
| "request_loop net p (attempt # rest) tr =
     (case net (n_requests tr) p of
        Response j \<Rightarrow> (Inr j, tr @ [Request p])
      | RaisesRequestException e \<Rightarrow>
          if attempt < max_retries - 1
          then request_loop net p rest (tr @ [Request p, Sleep (retry_delay * (attempt + 1))])
          else (Inl (RequestException e), tr @ [Request p])
      | RaisesOther e \<Rightarrow> (Inl (OtherException e), tr @ [Request p]))"

definition make_request :: "network \<Rightarrow> payload \<Rightarrow> trace \<Rightarrow> (py_error + json) \<times> trace" where
  "make_request net p tr = request_loop net p [0..<max_retries] tr"

section \<open>Bayut scraper: pages of one price range\<close>

text \<open>\<open>scrape_listings\<close> returns \<open>result.get('hits', [])\<close> and turns every exception, of
  the request or of \<open>get\<close>, into the empty list.\<close>

definition scrape_listings :: "network \<Rightarrow> string \<times> cmp list \<Rightarrow> nat \<Rightarrow> nat \<Rightarrow> trace \<Rightarrow> json \<times> trace" where
  "scrape_listings net flt pg hits_per_page tr =
     (case make_request net \<lparr>query = [], filters = flt, page = pg, hitsPerPage = hits_per_page\<rparr> tr of
        (Inl e, tr') \<Rightarrow> (JList [], tr')
      | (Inr result, tr') \<Rightarrow>
          (case py_get result ''hits'' (JList []) of
             Inl e \<Rightarrow> (JList [], tr')
           | Inr hits \<Rightarrow> (hits, tr')))"

text \<open>The body of \<open>for page in range(max_pages)\<close>, over the pages still to request, with
  \<open>all_listings\<close> as accumulator. An exception of \<open>extend\<close> leaves the loop.\<close>

fun page_loop :: "network \<Rightarrow> string \<times> cmp list \<Rightarrow> nat \<Rightarrow> nat list \<Rightarrow> json list \<Rightarrow> trace \<Rightarrow>
    (py_error + json list) \<times> trace" where
  "page_loop net flt hits_per_page [] all_listings tr = (Inr all_listings, tr)"
| "page_loop net flt hits_per_page (pg # rest) all_listings tr =
     (case scrape_listings net flt pg hits_per_page tr of
        (listings, tr') \<Rightarrow>
          if \<not> py_truthy listings then (Inr all_listings, tr')
          else (case py_iter listings of
                  Inl e \<Rightarrow> (Inl e, tr')
                | Inr xs \<Rightarrow> page_loop net flt hits_per_page rest (all_listings @ xs) (tr' @ [Sleep 1])))"

definition fetch_range :: "network \<Rightarrow> string \<Rightarrow> nat \<Rightarrow> nat \<Rightarrow> price_range \<Rightarrow> trace \<Rightarrow>
    (py_error + json list) \<times> trace" where
  "fetch_range net base_filters max_pages hits_per_page r tr =
     page_loop net (base_filters, filter_p r) hits_per_page [0..<max_pages] [] tr"

section \<open>PropertyFinder scraper: the pagination loop\<close>

text \<open>
  What one \<open>requests.get\<close> and the parsing of its body give: an exception (of the request
  or of \<open>json.loads\<close>), or a page with its status code and, when the page has a script
  tag \<open>__NEXT_DATA__\<close>, the JSON decoded from it. The site is a function of the number
  of requests sent so far and of the page number put in the URL.
\<close>

datatype web_response = Raises py_error | Html nat "json option"

type_synonym website = "nat \<Rightarrow> nat \<Rightarrow> web_response"

type_synonym pf_trace = "nat event list"

definition next_data_listings :: "json \<Rightarrow> py_error + json" where
  "next_data_listings data =
     (case py_subscript data ''props'' of
        Inl e \<Rightarrow> Inl e
      | Inr props \<Rightarrow>
          (case py_get props ''pageProps'' (JDict []) of
             Inl e \<Rightarrow> Inl e
           | Inr page_props \<Rightarrow>
               (case py_get page_props ''searchResult'' (JDict []) of
                  Inl e \<Rightarrow> Inl e
                | Inr search_result \<Rightarrow> py_get search_result ''listings'' (JList []))))"

definition fetch_listings_from_page :: "website \<Rightarrow> nat \<Rightarrow> pf_trace \<Rightarrow> (py_error + json) \<times> pf_trace" where
  "fetch_listings_from_page web page_number tr =
     (case web (n_requests tr) page_number of
        Raises e \<Rightarrow> (Inl e, tr @ [Request page_number])
      | Html status_code next_data_script \<Rightarrow>
          if status_code \<noteq> 200 then (Inr JNull, tr @ [Request page_number])
          else (case next_data_script of
                  Some data \<Rightarrow> (next_data_listings data, tr @ [Request page_number])
                | None \<Rightarrow> (Inr JNull, tr @ [Request page_number])))"

record pf_state =
  page_number :: nat
  retry_count :: nat
  all_listings :: "json list"
  total_properties :: nat
  pf_events :: pf_trace

datatype pf_result = Crashed py_error pf_state | Stopped pf_state

text \<open>
  The \<open>while True\<close> loop of \<open>scrape_properties\<close> has no bound of its own: it runs for as
  long as the site keeps giving listings. The model counts iterations down from a
  budget \<open>fuel\<close> and gives \<open>None\<close> when the budget is used up before the loop ends.
\<close>

fun scrape_loop :: "nat \<Rightarrow> website \<Rightarrow> pf_state \<Rightarrow> pf_result option" where
  "scrape_loop 0 web st = None"
| "scrape_loop (Suc fuel) web st =
     (case fetch_listings_from_page web (page_number st) (pf_events st) of
        (Inl e, tr) \<Rightarrow> Some (Crashed e (st\<lparr>pf_events := tr\<rparr>))
      | (Inr listings, tr) \<Rightarrow>
          if \<not> py_truthy listings then
            (if retry_count st + 1 \<ge> 3
             then Some (Stopped (st\<lparr>retry_count := retry_count st + 1, pf_events := tr\<rparr>))
             else scrape_loop fuel web
                    (st\<lparr>retry_count := retry_count st + 1, pf_events := tr @ [Sleep 2]\<rparr>))
          else (case py_iter listings of
                  Inl e \<Rightarrow> Some (Crashed e (st\<lparr>retry_count := 0, pf_events := tr\<rparr>))
                | Inr xs \<Rightarrow>
                    scrape_loop fuel web
                      (st\<lparr>retry_count := 0,
                          all_listings := all_listings st @ xs,
                          total_properties := total_properties st + length xs,
                          page_number := page_number st + 1,
                          pf_events := tr @ [Sleep 1]\<rparr>)))"

definition pf_init :: pf_state where
  "pf_init = \<lparr>page_number = 1, retry_count = 0, all_listings = [], total_properties = 0,
              pf_events = []\<rparr>"

text \<open>The request \<open>scrape_listings\<close> sends for a page.\<close>

definition page_request :: "string \<times> cmp list \<Rightarrow> nat \<Rightarrow> nat \<Rightarrow> payload" where
  "page_request flt pg hits_per_page =
     \<lparr>query = [], filters = flt, page = pg, hitsPerPage = hits_per_page\<rparr>"

text \<open>An Algolia answer whose field \<open>hits\<close> is the list \<open>xs\<close>.\<close>

fun returns_hits :: "http_outcome \<Rightarrow> json list \<Rightarrow> bool" where
  "returns_hits (Response (JDict kvs)) xs = (map_of kvs ''hits'' = Some (JList xs))"
| "returns_hits _ xs = False"

text \<open>A page served with status 200 whose embedded JSON has the list \<open>xs\<close> at
  \<open>props.pageProps.searchResult.listings\<close>.\<close>

fun serves :: "web_response \<Rightarrow> json list \<Rightarrow> bool" where
  "serves (Html status_code (Some data)) xs =
     (status_code = 200 \<and> next_data_listings data = Inr (JList xs))"
| "serves _ xs = False"

fun final_state :: "pf_result \<Rightarrow> pf_state" where
  "final_state (Crashed e st) = st"
| "final_state (Stopped st) = st"

text \<open>A response that makes \<open>fetch_listings_from_page\<close> return a value that
  \<open>if not listings\<close> takes as empty: a status other than 200, a page without the script
  tag, or embedded JSON whose listings are empty.\<close>

fun no_listings :: "web_response \<Rightarrow> bool" where
  "no_listings (Raises e) = False"
| "no_listings (Html status_code None) = True"
| "no_listings (Html status_code (Some data)) =
     (status_code \<noteq> 200 \<or>
      (case next_data_listings data of Inl e \<Rightarrow> False | Inr l \<Rightarrow> \<not> py_truthy l))"

text \<open>A response from which \<open>fetch_listings_from_page\<close> returns a value that
  \<open>if not listings\<close> takes as non-empty.\<close>

fun has_listings :: "web_response \<Rightarrow> bool" where
  "has_listings (Html status_code (Some data)) =
     (status_code = 200 \<and>
      (case next_data_listings data of Inl e \<Rightarrow> False | Inr l \<Rightarrow> py_truthy l))"
| "has_listings _ = False"

text \<open>
  The page numbers of a run's requests follow the cursor rule when each request after
  the first asks for the next page if the request before it returned listings, and for
  the same page if it did not. The request at position \<open>k\<close> of the run is the \<open>k\<close>-th the
  site receives.
\<close>

definition next_page :: "web_response \<Rightarrow> nat \<Rightarrow> nat" where
  "next_page w p = (if has_listings w then p + 1 else p)"

fun cursor_follows :: "website \<Rightarrow> nat \<Rightarrow> nat list \<Rightarrow> bool" where
  "cursor_follows web k [] = True"
| "cursor_follows web k [p] = True"
| "cursor_follows web k (p # q # rest) =
     (q = next_page (web k p) p \<and> cursor_follows web (Suc k) (q # rest))"

text \<open>One iteration of the loop of \<open>scrape_properties\<close>: the result with which the loop
  is left, or the state of the next iteration.\<close>

definition pf_iter :: "website \<Rightarrow> pf_state \<Rightarrow> pf_result + pf_state" where
  "pf_iter web st =
     (case fetch_listings_from_page web (page_number st) (pf_events st) of
        (Inl e, tr) \<Rightarrow> Inl (Crashed e (st\<lparr>pf_events := tr\<rparr>))
      | (Inr listings, tr) \<Rightarrow>
          if \<not> py_truthy listings then
            (if retry_count st + 1 \<ge> 3
             then Inl (Stopped (st\<lparr>retry_count := retry_count st + 1, pf_events := tr\<rparr>))
             else Inr (st\<lparr>retry_count := retry_count st + 1, pf_events := tr @ [Sleep 2]\<rparr>))
          else (case py_iter listings of
                  Inl e \<Rightarrow> Inl (Crashed e (st\<lparr>retry_count := 0, pf_events := tr\<rparr>))
                | Inr xs \<Rightarrow>
                    Inr (st\<lparr>retry_count := 0,
                           all_listings := all_listings st @ xs,
                           total_properties := total_properties st + length xs,
                           page_number := page_number st + 1,
                           pf_events := tr @ [Sleep 1]\<rparr>)))"

text \<open>What holds of the state at the head of every iteration of a run from \<open>pf_init\<close>.\<close>

definition pf_inv :: "website \<Rightarrow> pf_state \<Rightarrow> bool" where
  "pf_inv web st =
     (let reqs = requests_of (pf_events st); p = page_number st in
        1 \<le> p \<and> retry_count st < 3 \<and> sorted reqs \<and> set reqs \<subseteq> {1..p} \<and> {1..<p} \<subseteq> set reqs
        \<and> count_list reqs p = retry_count st \<and> (\<forall>q. count_list reqs q \<le> 3)
        \<and> cursor_follows web 0 reqs
        \<and> (if reqs = [] then p = 1
           else hd reqs = 1 \<and> p = next_page (web (length reqs - 1) (last reqs)) (last reqs)))"

section \<open>Bayut scraper: data frames\<close>

text \<open>
  The normalization block of \<open>price_range_scrape\<close> works on a pandas \<open>DataFrame\<close>. A
  frame is modelled as its column labels and its rows, each row holding the cells under
  their labels in column order. A cell with no data holds \<open>JNull\<close>.
\<close>

type_synonym row = "(string \<times> json) list"

record dataframe =
  columns :: "string list"
  rows :: "row list"

definition cell_of :: "row \<Rightarrow> string \<Rightarrow> json" where
  "cell_of r k = (case map_of r k of None \<Rightarrow> JNull | Some v \<Rightarrow> v)"

fun is_dict :: "json \<Rightarrow> bool" where
  "is_dict (JDict kvs) = True"
| "is_dict _ = False"

fun dict_items :: "json \<Rightarrow> row" where
  "dict_items (JDict kvs) = kvs"
| "dict_items _ = []"

definition first_seen :: "string list \<Rightarrow> string list" where
  "first_seen ks = rev (remdups (rev ks))"

text \<open>\<open>pd.DataFrame(all_listings)\<close> on a list of dictionaries: the columns are the keys
  of all records, in the order in which they first occur, and a record without a key
  has an empty cell there. A list with an element that is not a dictionary gives no
  frame with these columns; the model raises.\<close>

definition data_frame :: "json list \<Rightarrow> py_error + dataframe" where
  "data_frame records =
     (if list_all is_dict records
      then (let ds = map dict_items records;
                ks = first_seen (concat (map (map fst) ds))
            in Inr \<lparr>columns = ks, rows = map (\<lambda>d. map (\<lambda>k. (k, cell_of d k)) ks) ds\<rparr>)
      else Inl TypeError)"

text \<open>\<open>df[c]\<close>: the series under a label, \<open>KeyError\<close> when the frame has no such column.\<close>

definition df_get :: "dataframe \<Rightarrow> string \<Rightarrow> py_error + json list" where
  "df_get df c =
     (if c \<in> set (columns df) then Inr (map (\<lambda>r. cell_of r c) (rows df)) else Inl (KeyError c))"

text \<open>\<open>df[c] = series\<close>: replaces the column, or appends it as the last one. The series
  assigned in this program are computed from a column of the same frame, so they have
  one value for each row.\<close>

definition add_column :: "string \<Rightarrow> string list \<Rightarrow> string list" where
  "add_column c cs = (if c \<in> set cs then cs else cs @ [c])"

definition df_set :: "dataframe \<Rightarrow> string \<Rightarrow> json list \<Rightarrow> dataframe" where
  "df_set df c s =
     \<lparr>columns = add_column c (columns df),
      rows = map (\<lambda>rv. AList.update c (snd rv) (fst rv)) (zip (rows df) s)\<rparr>"

text \<open>\<open>series.apply(f)\<close> calls \<open>f\<close> on the values in order and raises what \<open>f\<close> raises.\<close>

fun apply_series :: "(json \<Rightarrow> py_error + 'a) \<Rightarrow> json list \<Rightarrow> py_error + 'a list" where
  "apply_series f [] = Inr []"
| "apply_series f (x # xs) =
     (case f x of
        Inl e \<Rightarrow> Inl e
      | Inr y \<Rightarrow> (case apply_series f xs of Inl e \<Rightarrow> Inl e | Inr ys \<Rightarrow> Inr (y # ys)))"

text \<open>\<open>df[c] = df[src].apply(f)\<close>.\<close>

definition derive :: "string \<Rightarrow> string \<Rightarrow> (json \<Rightarrow> py_error + json) \<Rightarrow> dataframe \<Rightarrow> py_error + dataframe" where
  "derive c src f df =
     (case df_get df src of
        Inl e \<Rightarrow> Inl e
      | Inr s \<Rightarrow> (case apply_series f s of Inl e \<Rightarrow> Inl e | Inr vs \<Rightarrow> Inr (df_set df c vs)))"

text \<open>\<open>df[c1], df[c2] = zip(*df[src].apply(f))\<close> for an \<open>f\<close> that returns pairs.\<close>

definition derive2 :: "string \<Rightarrow> string \<Rightarrow> string \<Rightarrow> (json \<Rightarrow> py_error + json \<times> json) \<Rightarrow> dataframe \<Rightarrow>
    py_error + dataframe" where
  "derive2 c1 c2 src f df =
     (case df_get df src of
        Inl e \<Rightarrow> Inl e
      | Inr s \<Rightarrow>
          (case apply_series f s of
             Inl e \<Rightarrow> Inl e
           | Inr ps \<Rightarrow> Inr (df_set (df_set df c1 (map fst ps)) c2 (map snd ps))))"

text \<open>\<open>df.rename(columns={old: new}, inplace=True)\<close>; a frame without the column \<open>old\<close>
  is left as it is.\<close>

definition df_rename :: "string \<Rightarrow> string \<Rightarrow> dataframe \<Rightarrow> dataframe" where
  "df_rename old new df =
     \<lparr>columns = map (\<lambda>k. if k = old then new else k) (columns df),
      rows = map (map (\<lambda>kv. (if fst kv = old then new else fst kv, snd kv))) (rows df)\<rparr>"

text \<open>\<open>df[cs]\<close> with a list of labels: the columns under these labels in the order of
  the list, \<open>KeyError\<close> when a label is missing.\<close>

definition df_select :: "string list \<Rightarrow> dataframe \<Rightarrow> py_error + dataframe" where
  "df_select cs df =
     (case filter (\<lambda>c. c \<notin> set (columns df)) cs of
        c # _ \<Rightarrow> Inl (KeyError c)
      | [] \<Rightarrow>
          Inr \<lparr>columns = concat (map (\<lambda>c. filter (\<lambda>k. k = c) (columns df)) cs),
               rows = map (\<lambda>r. concat (map (\<lambda>c. filter (\<lambda>kv. fst kv = c) r) cs)) (rows df)\<rparr>)"

text \<open>\<open>df[df[c] == s]\<close>: the rows whose cell under \<open>c\<close> is the string \<open>s\<close>.\<close>

definition df_where_eq :: "string \<Rightarrow> string \<Rightarrow> dataframe \<Rightarrow> py_error + dataframe" where
  "df_where_eq c s df =
     (case df_get df c of
        Inl e \<Rightarrow> Inl e
      | Inr vs \<Rightarrow> Inr (df\<lparr>rows := map fst (filter (\<lambda>rv. snd rv = JStr s) (zip (rows df) vs))\<rparr>))"

text \<open>A sequence of statements, each of which may raise.\<close>

fun run_steps :: "('s \<Rightarrow> py_error + 's) list \<Rightarrow> 's \<Rightarrow> py_error + 's" where
  "run_steps [] s = Inr s"
| "run_steps (f # fs) s = (case f s of Inl e \<Rightarrow> Inl e | Inr s' \<Rightarrow> run_steps fs s')"

section \<open>Bayut scraper: normalization\<close>

text \<open>\<open>x[k] if isinstance(x, dict) and k in x else None\<close>, and the same with \<open>x.get(k)\<close>.\<close>

fun dict_field :: "string \<Rightarrow> json \<Rightarrow> json" where
  "dict_field k (JDict kvs) = (case map_of kvs k of None \<Rightarrow> JNull | Some v \<Rightarrow> v)"
| "dict_field k _ = JNull"

text \<open>\<open>v == level\<close> for an integer \<open>level\<close>: Python compares numbers by value, and \<open>True\<close>
  and \<open>False\<close> are the numbers 1 and 0.\<close>

fun py_eq_nat :: "json \<Rightarrow> nat \<Rightarrow> bool" where
  "py_eq_nat (JNum x) n = (x = of_nat n)"
| "py_eq_nat (JBool b) n = ((if b then 1 else 0) = n)"
| "py_eq_nat _ n = False"

text \<open>The loop \<open>for loc in location\<close> of \<open>extract_location_details\<close>: \<open>loc.get\<close> raises on
  an element that is not a dictionary.\<close>

fun find_level :: "json list \<Rightarrow> nat \<Rightarrow> py_error + json \<times> json" where
  "find_level [] level = Inr (JNull, JNull)"
| "find_level (loc # locs) level =
     (case py_get loc ''level'' JNull of
        Inl e \<Rightarrow> Inl e
      | Inr l \<Rightarrow>
          if py_eq_nat l level
          then (case py_get loc ''externalID'' JNull of
                  Inl e \<Rightarrow> Inl e
                | Inr i \<Rightarrow> (case py_get loc ''name'' JNull of Inl e \<Rightarrow> Inl e | Inr n \<Rightarrow> Inr (i, n)))
          else find_level locs level)"

fun extract_location_details :: "nat \<Rightarrow> json \<Rightarrow> py_error + json \<times> json" where
  "extract_location_details level (JList location) = find_level location level"
| "extract_location_details level _ = Inr (JNull, JNull)"

fun extract_category_details :: "nat \<Rightarrow> json \<Rightarrow> py_error + json \<times> json" where
  "extract_category_details level (JList category) = find_level category level"
| "extract_category_details level _ = Inr (JNull, JNull)"

text \<open>\<open>pd.to_datetime(series, unit='s')\<close> on one value: a number of seconds becomes a
  timestamp, a missing value stays missing, anything else is refused.\<close>

fun to_datetime :: "json \<Rightarrow> py_error + json" where
  "to_datetime (JNum x) = Inr (JTime x)"
| "to_datetime JNull = Inr JNull"
| "to_datetime (JTime t) = Inr (JTime t)"
| "to_datetime _ = Inl ValueError"

text \<open>
  \<open>f"https://www.bayut.com/property/details-{x}.html" if pd.notnull(x) else None\<close>.
  The text Python's \<open>str\<close> gives for a value is a parameter, \<open>str_of\<close>. On a list
  \<open>pd.notnull\<close> gives an array, whose truth value \<open>if\<close> refuses; the model raises for
  every list.
\<close>

fun bayut_link :: "(json \<Rightarrow> string) \<Rightarrow> json \<Rightarrow> py_error + json" where
  "bayut_link str_of JNull = Inr JNull"
| "bayut_link str_of (JList xs) = Inl ValueError"
| "bayut_link str_of x =
     Inr (JStr (''https://www.bayut.com/property/details-'' @ str_of x @ ''.html''))"

definition desired_columns :: "string list" where
  "desired_columns =
     [''objectID'', ''DldPropertySK'', ''referenceNumber'', ''permitNumber'', ''title'',
      ''BayutLink'', ''purpose'', ''price'', ''rentFrequency'', ''rooms'',
      ''baths'', ''area (sqm)'', ''plotArea (sqm)'', ''furnishingStatus'', ''amenities'',
      ''CategoryTypeName'', ''CategorySubtypeName'',
      ''CityName'', ''DistrictID'', ''DistrictName'', ''NeighborhoodName'', ''BuildingName'',
      ''DldBuildingNK'', ''latitude'', ''longitude'', ''createdAt'',
      ''updatedAt'',
      ''contactName'', ''phoneNumber'', ''AgencyName'',
      ''completionStatus'', ''scrape_date'']"

text \<open>The statements of the block from \<open>df['scrape_date'] = ...\<close> to
  \<open>df = df[df['CityName'] == 'Dubai']\<close>, in the order of the source. \<open>now\<close> is the text
  that \<open>datetime.now().strftime(...)\<close> gives when the block runs.\<close>

definition normalize_steps :: "(json \<Rightarrow> string) \<Rightarrow> string \<Rightarrow> (dataframe \<Rightarrow> py_error + dataframe) list" where
  "normalize_steps str_of now =
     [ \<lambda>df. Inr (df_set df ''scrape_date'' (replicate (length (rows df)) (JStr now))),
       derive ''latitude'' ''geography'' (\<lambda>x. Inr (dict_field ''lat'' x)),
       derive ''longitude'' ''geography'' (\<lambda>x. Inr (dict_field ''lng'' x)),
       derive2 ''CityCode'' ''CityName'' ''location'' (extract_location_details 1),
       derive2 ''DistrictID'' ''DistrictName'' ''location'' (extract_location_details 2),
       derive2 ''NeighborhoodID'' ''NeighborhoodName'' ''location'' (extract_location_details 3),
       derive2 ''BuildingID'' ''BuildingName'' ''location'' (extract_location_details 4),
       derive2 ''CategoryTypeCode'' ''CategoryTypeName'' ''category'' (extract_category_details 0),
       derive2 ''CategorySubtypeCode'' ''CategorySubtypeName'' ''category'' (extract_category_details 1),
       derive ''AgencyName'' ''agency'' (\<lambda>x. Inr (dict_field ''name'' x)),
       derive ''DldBuildingNK'' ''extraFields'' (\<lambda>x. Inr (dict_field ''dldBuildingNK'' x)),
       derive ''DldPropertySK'' ''extraFields'' (\<lambda>x. Inr (dict_field ''dldPropertySK'' x)),
       derive ''createdAt'' ''createdAt'' to_datetime,
       derive ''updatedAt'' ''updatedAt'' to_datetime,
       derive ''BayutLink'' ''externalID'' (bayut_link str_of),
       \<lambda>df. Inr (df_rename ''area'' ''area (sqm)'' df),
       \<lambda>df. Inr (df_rename ''plotArea'' ''plotArea (sqm)'' df),
       df_select desired_columns,
       df_where_eq ''CityName'' ''Dubai'' ]"

definition normalize :: "(json \<Rightarrow> string) \<Rightarrow> string \<Rightarrow> json list \<Rightarrow> py_error + dataframe" where
  "normalize str_of now records =
     (case data_frame records of
        Inl e \<Rightarrow> Inl e
      | Inr df \<Rightarrow> run_steps (normalize_steps str_of now) df)"

section \<open>Bayut scraper: the run over the price ranges\<close>










section \<open>Bayut scraper: combining the files\<close>









section \<open>The normalized record of one listing\<close>

text \<open>
  The record that the specification describes for one raw listing (Record Normalizer,
  steps 1 to 6), written from its words as a function of the listing alone: a field
  that the listing omits reads as null. It is compared with the code below.
\<close>

definition walk :: "nat \<Rightarrow> json \<Rightarrow> json \<times> json" where
  "walk level x =
     (case x of
        JList nodes \<Rightarrow>
          (case find (\<lambda>n. py_eq_nat (dict_field ''level'' n) level) nodes of
             None \<Rightarrow> (JNull, JNull)
           | Some n \<Rightarrow> (dict_field ''externalID'' n, dict_field ''name'' n))
      | _ \<Rightarrow> (JNull, JNull))"

definition timestamp :: "json \<Rightarrow> json" where
  "timestamp x = (case x of JNum s \<Rightarrow> JTime s | JTime t \<Rightarrow> JTime t | _ \<Rightarrow> JNull)"

definition listing_url :: "(json \<Rightarrow> string) \<Rightarrow> json \<Rightarrow> json" where
  "listing_url str_of x =
     (case x of
        JNull \<Rightarrow> JNull
      | _ \<Rightarrow> JStr (''https://www.bayut.com/property/details-'' @ str_of x @ ''.html''))"

definition normalize_record :: "(json \<Rightarrow> string) \<Rightarrow> string \<Rightarrow> row \<Rightarrow> row" where
  "normalize_record str_of now d =
     [(''objectID'', cell_of d ''objectID''),
      (''DldPropertySK'', dict_field ''dldPropertySK'' (cell_of d ''extraFields'')),
      (''referenceNumber'', cell_of d ''referenceNumber''),
      (''permitNumber'', cell_of d ''permitNumber''),
      (''title'', cell_of d ''title''),
      (''BayutLink'', listing_url str_of (cell_of d ''externalID'')),
      (''purpose'', cell_of d ''purpose''),
      (''price'', cell_of d ''price''),
      (''rentFrequency'', cell_of d ''rentFrequency''),
      (''rooms'', cell_of d ''rooms''),
      (''baths'', cell_of d ''baths''),
      (''area (sqm)'', cell_of d ''area''),
      (''plotArea (sqm)'', cell_of d ''plotArea''),
      (''furnishingStatus'', cell_of d ''furnishingStatus''),
      (''amenities'', cell_of d ''amenities''),
      (''CategoryTypeName'', snd (walk 0 (cell_of d ''category''))),
      (''CategorySubtypeName'', snd (walk 1 (cell_of d ''category''))),
      (''CityName'', snd (walk 1 (cell_of d ''location''))),
      (''DistrictID'', fst (walk 2 (cell_of d ''location''))),
      (''DistrictName'', snd (walk 2 (cell_of d ''location''))),
      (''NeighborhoodName'', snd (walk 3 (cell_of d ''location''))),
      (''BuildingName'', snd (walk 4 (cell_of d ''location''))),
      (''DldBuildingNK'', dict_field ''dldBuildingNK'' (cell_of d ''extraFields'')),
      (''latitude'', dict_field ''lat'' (cell_of d ''geography'')),
      (''longitude'', dict_field ''lng'' (cell_of d ''geography'')),
      (''createdAt'', timestamp (cell_of d ''createdAt'')),
      (''updatedAt'', timestamp (cell_of d ''updatedAt'')),
      (''contactName'', cell_of d ''contactName''),
      (''phoneNumber'', cell_of d ''phoneNumber''),
      (''AgencyName'', dict_field ''name'' (cell_of d ''agency'')),
      (''completionStatus'', cell_of d ''completionStatus''),
      (''scrape_date'', JStr now)]"

text \<open>The keys of a raw listing that normalization reads, each with the columns of the
  normalized record that are computed from it.\<close>

definition feeds :: "(string \<times> string list) list" where
  "feeds =
     [(''objectID'', [''objectID'']),
      (''referenceNumber'', [''referenceNumber'']),
      (''permitNumber'', [''permitNumber'']),
      (''title'', [''title'']),
      (''purpose'', [''purpose'']),
      (''price'', [''price'']),
      (''rentFrequency'', [''rentFrequency'']),
      (''rooms'', [''rooms'']),
      (''baths'', [''baths'']),
      (''area'', [''area (sqm)'']),
      (''plotArea'', [''plotArea (sqm)'']),
      (''furnishingStatus'', [''furnishingStatus'']),
      (''amenities'', [''amenities'']),
      (''contactName'', [''contactName'']),
      (''phoneNumber'', [''phoneNumber'']),
      (''completionStatus'', [''completionStatus'']),
      (''externalID'', [''BayutLink'']),
      (''geography'', [''latitude'', ''longitude'']),
      (''location'', [''CityName'', ''DistrictID'', ''DistrictName'', ''NeighborhoodName'',
                      ''BuildingName'']),
      (''category'', [''CategoryTypeName'', ''CategorySubtypeName'']),
      (''agency'', [''AgencyName'']),
      (''extraFields'', [''DldPropertySK'', ''DldBuildingNK'']),
      (''createdAt'', [''createdAt'']),
      (''updatedAt'', [''updatedAt''])]"

text \<open>A listing omits none of its fields without the record showing null in the columns
  computed from it.\<close>

definition omitted_fields_null :: "row \<Rightarrow> row \<Rightarrow> bool" where
  "omitted_fields_null d rec =
     list_all (\<lambda>f. map_of d (fst f) = None \<longrightarrow> list_all (\<lambda>c. cell_of rec c = JNull) (snd f)) feeds"

text \<open>The columns that the block takes from the frame built from the fetched records.\<close>

definition raw_columns :: "string list" where
  "raw_columns = map fst feeds"

text \<open>The values of a listing have the kinds the block expects where they are present:
  the location and category sequences hold dictionaries only, the two timestamps are
  numbers, the external identifier is not a list.\<close>

fun all_dicts :: "json \<Rightarrow> bool" where
  "all_dicts (JList xs) = list_all is_dict xs"
| "all_dicts _ = True"

fun seconds_or_null :: "json \<Rightarrow> bool" where
  "seconds_or_null (JNum x) = True"
| "seconds_or_null JNull = True"
| "seconds_or_null _ = False"

fun not_list :: "json \<Rightarrow> bool" where
  "not_list (JList xs) = False"
| "not_list _ = True"

definition well_shaped :: "row \<Rightarrow> bool" where
  "well_shaped d =
     (all_dicts (cell_of d ''location'') \<and> all_dicts (cell_of d ''category'')
      \<and> seconds_or_null (cell_of d ''createdAt'') \<and> seconds_or_null (cell_of d ''updatedAt'')
      \<and> not_list (cell_of d ''externalID''))"

section \<open>Notions used to state and prove the properties of normalization\<close>

text \<open>The result of normalization with the column \<open>scrape_date\<close> left out.\<close>

definition drop_column :: "string \<Rightarrow> dataframe \<Rightarrow> dataframe" where
  "drop_column c df =
     \<lparr>columns = filter (\<lambda>k. k \<noteq> c) (columns df),
      rows = map (filter (\<lambda>kv. fst kv \<noteq> c)) (rows df)\<rparr>"

definition without_scrape_date :: "py_error + dataframe \<Rightarrow> py_error + dataframe" where
  "without_scrape_date res = map_sum id (drop_column ''scrape_date'') res"

text \<open>Two rows, and two frames, that agree everywhere but in the cells under
  \<open>scrape_date\<close>.\<close>

definition same_but_date :: "row \<Rightarrow> row \<Rightarrow> bool" where
  "same_but_date r r' =
     list_all2 (\<lambda>kv kv'. fst kv = fst kv' \<and> (fst kv = ''scrape_date'' \<or> snd kv = snd kv')) r r'"

definition same_but_date_df :: "dataframe \<Rightarrow> dataframe \<Rightarrow> bool" where
  "same_but_date_df df df' =
     (columns df = columns df' \<and> list_all2 same_but_date (rows df) (rows df'))"

text \<open>Every row of the frame has the text \<open>now\<close> under \<open>scrape_date\<close>.\<close>

definition dated :: "string \<Rightarrow> dataframe \<Rightarrow> bool" where
  "dated now df = list_all (\<lambda>r. map_of r ''scrape_date'' = Some (JStr now)) (rows df)"

text \<open>The row of the frame for the listing \<open>d\<close> after the statements that add or replace
  columns, written with the values that the specification gives; \<open>r\<close> is the row before them.\<close>

definition augmented :: "(json \<Rightarrow> string) \<Rightarrow> string \<Rightarrow> row \<Rightarrow> row \<Rightarrow> row" where
  "augmented str_of now d r =
     (AList.update ''BayutLink'' (listing_url str_of (cell_of d ''externalID''))
       (AList.update ''updatedAt'' (timestamp (cell_of d ''updatedAt''))
       (AList.update ''createdAt'' (timestamp (cell_of d ''createdAt''))
       (AList.update ''DldPropertySK'' (dict_field ''dldPropertySK'' (cell_of d ''extraFields''))
       (AList.update ''DldBuildingNK'' (dict_field ''dldBuildingNK'' (cell_of d ''extraFields''))
       (AList.update ''AgencyName'' (dict_field ''name'' (cell_of d ''agency''))
       (AList.update ''CategorySubtypeName'' (snd (walk 1 (cell_of d ''category'')))
       (AList.update ''CategorySubtypeCode'' (fst (walk 1 (cell_of d ''category'')))
       (AList.update ''CategoryTypeName'' (snd (walk 0 (cell_of d ''category'')))
       (AList.update ''CategoryTypeCode'' (fst (walk 0 (cell_of d ''category'')))
       (AList.update ''BuildingName'' (snd (walk 4 (cell_of d ''location'')))
       (AList.update ''BuildingID'' (fst (walk 4 (cell_of d ''location'')))
       (AList.update ''NeighborhoodName'' (snd (walk 3 (cell_of d ''location'')))
       (AList.update ''NeighborhoodID'' (fst (walk 3 (cell_of d ''location'')))
       (AList.update ''DistrictName'' (snd (walk 2 (cell_of d ''location'')))
       (AList.update ''DistrictID'' (fst (walk 2 (cell_of d ''location'')))
       (AList.update ''CityName'' (snd (walk 1 (cell_of d ''location'')))
       (AList.update ''CityCode'' (fst (walk 1 (cell_of d ''location'')))
       (AList.update ''longitude'' (dict_field ''lng'' (cell_of d ''geography''))
       (AList.update ''latitude'' (dict_field ''lat'' (cell_of d ''geography''))
       (AList.update ''scrape_date'' (JStr now)
        r)))))))))))))))))))))"

section \<open>Stubs of the two sources\<close>

definition listing_a :: json where
  "listing_a = JDict [(''id'', JStr ''a'')]"

definition listing_b :: json where
  "listing_b = JDict [(''id'', JStr ''b'')]"

definition hits_body :: "json list \<Rightarrow> json" where
  "hits_body xs = JDict [(''nbHits'', JNum 2), (''hits'', JList xs)]"

definition next_data :: "json list \<Rightarrow> json" where
  "next_data xs =
     JDict [(''props'', JDict [(''pageProps'',
       JDict [(''searchResult'', JDict [(''listings'', JList xs)])])])]"

text \<open>An index with two pages of results, whatever the filter.\<close>

definition stub_two_pages :: network where
  "stub_two_pages n p =
     Response (hits_body (if page p = 0 then [listing_a] else if page p = 1 then [listing_b] else []))"

text \<open>A site with two pages of results (pages are numbered from 1).\<close>

definition site_two_pages :: website where
  "site_two_pages n pg =
     Html 200 (Some (next_data (if pg = 1 then [listing_a] else if pg = 2 then [listing_b] else [])))"

text \<open>A site with one page of results that answers its first request with status 503.\<close>

definition site_transient :: website where
  "site_transient n pg =
     (if n = 0 then Html 503 None
      else Html 200 (Some (next_data (if pg = 1 then [listing_a] else []))))"

definition budget :: price_range where
  "budget = \<lparr>label = ''budget'', filter_p = [PriceLt 20000]\<rparr>"



definition bare_listing :: json where
  "bare_listing =
     JDict [(''objectID'', JStr ''102''),
            (''location'', JList [JDict [(''level'', JNum 1), (''externalID'', JStr ''5002''),
                                         (''name'', JStr ''Dubai'')]])]"








section \<open>Properties of the price ranges\<close>

lemma n_requests_append [simp]: "n_requests (tr @ tr') = n_requests tr + n_requests tr'"
  by (simp add: n_requests_def)

lemma n_requests_simps [simp]:
  "n_requests [] = 0"
  "n_requests (Request r # tr) = Suc (n_requests tr)"
  "n_requests (Sleep n # tr) = n_requests tr"
  by (simp_all add: n_requests_def)

lemma partitions_of_cases:
  "partitions_of p =
    (if p < 20000 then [''budget'']
     else if 20001 \<le> p \<and> p < 35000 then [''budget2'']
     else if 35001 \<le> p \<and> p < 50000 then [''budget3'']
     else if 50001 \<le> p \<and> p < 75000 then [''mid_range'']
     else if 75001 \<le> p \<and> p < 100000 then [''mid_range2'']
     else if 100001 \<le> p \<and> p < 120000 then [''mid_range22'']
     else if 120001 \<le> p \<and> p < 150001 then [''mid_range3'']
     else if 150001 \<le> p \<and> p < 200000 then [''mid_range4'']
     else if 200001 \<le> p \<and> p < 250000 then [''mid_range5'']
     else if 250001 \<le> p \<and> p < 275000 then [''mid_range6'']
     else if 275001 \<le> p \<and> p < 300000 then [''mid_range7'']
     else if 300001 \<le> p \<and> p < 400000 then [''mid_range8'']
     else if 400001 \<le> p \<and> p < 500000 then [''mid_range9'']
     else if 500001 \<le> p \<and> p < 600000 then [''mid_range10'']
     else if 600001 \<le> p then [''ultra_luxury'']
     else [])"
  by (simp add: partitions_of_def price_ranges_def matches_def)

text \<open>No price is in two partitions: the predicates are pairwise disjoint.\<close>

lemma price_ranges_disjoint: "length (partitions_of p) \<le> 1"
  by (simp add: partitions_of_cases)

text \<open>The prices no partition takes: the thirteen boundaries where one band ends with
  \<open>price < b\<close> and the next begins with \<open>price >= b + 1\<close>. The boundary at 150001 is
  written without such a hole.\<close>

lemma price_ranges_gaps:
  "partitions_of p = [] \<longleftrightarrow>
     p \<in> {20000, 35000, 50000, 75000, 100000, 120000, 200000, 250000, 275000,
          300000, 400000, 500000, 600000}"
  by (simp add: partitions_of_cases) arith

text \<open>
  C1. Every price is in exactly one partition of the declared list. The code does not do
  this: a listing priced 20000 satisfies neither \<open>price < 20000\<close> nor
  \<open>price >= 20001 AND price < 35000\<close>, nor any later filter.
\<close>

theorem price_20000_in_no_partition:
  "filter (\<lambda>r. matches r 20000) price_ranges = [] \<and> partitions_of 150000 = [''mid_range3'']"
  by (simp add: partitions_of_def price_ranges_def matches_def)

section \<open>Properties of one request\<close>

lemma upt_max_retries: "[0..<max_retries] = [0, 1, 2]"
  by (simp add: max_retries_def upt_rec)

text \<open>
  C5. \<open>_make_request\<close> makes at most three attempts. It returns at the first attempt that
  succeeds, sending nothing more. After a failed first attempt it sleeps 2 seconds,
  after a failed second attempt 4 seconds (\<open>retry_delay * (attempt + 1)\<close>, which for these
  two sleeps is also \<open>2 ^ k\<close>), and a \<open>RequestException\<close> of the third attempt is raised to
  the caller with no further sleep. An exception of another class is raised at once.
\<close>

theorem make_request_retry_budget:
  "make_request net p tr =
     (case net (n_requests tr) p of
        Response j \<Rightarrow> (Inr j, tr @ [Request p])
      | RaisesOther e \<Rightarrow> (Inl (OtherException e), tr @ [Request p])
      | RaisesRequestException e1 \<Rightarrow>
          (case net (n_requests tr + 1) p of
             Response j \<Rightarrow> (Inr j, tr @ [Request p, Sleep 2, Request p])
           | RaisesOther e \<Rightarrow> (Inl (OtherException e), tr @ [Request p, Sleep 2, Request p])
           | RaisesRequestException e2 \<Rightarrow>
               (case net (n_requests tr + 2) p of
                  Response j \<Rightarrow> (Inr j, tr @ [Request p, Sleep 2, Request p, Sleep 4, Request p])
                | RaisesOther e \<Rightarrow>
                    (Inl (OtherException e), tr @ [Request p, Sleep 2, Request p, Sleep 4, Request p])
                | RaisesRequestException e3 \<Rightarrow>
                    (Inl (RequestException e3),
                     tr @ [Request p, Sleep 2, Request p, Sleep 4, Request p]))))
   \<and> retry_delay * 1 = 2 ^ 1 \<and> retry_delay * 2 = 2 ^ 2"
  unfolding make_request_def upt_max_retries
  by (simp add: max_retries_def retry_delay_def split: http_outcome.splits)

section \<open>Properties of the Bayut page loop\<close>

lemma requests_of_simps [simp]:
  "requests_of [] = []"
  "requests_of (Request r # tr) = r # requests_of tr"
  "requests_of (Sleep n # tr) = requests_of tr"
  "requests_of (tr @ tr') = requests_of tr @ requests_of tr'"
  by (simp_all add: requests_of_def)

lemma make_request_first_response:
  "net (n_requests tr) p = Response j \<Longrightarrow> make_request net p tr = (Inr j, tr @ [Request p])"
  unfolding make_request_def upt_max_retries by simp

lemma scrape_listings_hits:
  assumes "returns_hits (net (n_requests tr) (page_request flt pg h)) xs"
  shows "scrape_listings net flt pg h tr = (JList xs, tr @ [Request (page_request flt pg h)])"
proof -
  obtain kvs where r: "net (n_requests tr) (page_request flt pg h) = Response (JDict kvs)"
    and k: "map_of kvs ''hits'' = Some (JList xs)"
    using assms by (auto elim: returns_hits.elims)
  have "make_request net (page_request flt pg h) tr =
      (Inr (JDict kvs), tr @ [Request (page_request flt pg h)])"
    using r by (rule make_request_first_response)
  then show ?thesis
    using k by (simp add: scrape_listings_def page_request_def)
qed

lemma upt_two: "[0..<2] = [0, Suc 0]"
  by (simp add: upt_conv_Cons)

lemma upt_three_more: "3 \<le> n \<Longrightarrow> [0..<n] = 0 # Suc 0 # 2 # [3..<n]"
  by (simp add: upt_conv_Cons numeral_3_eq_3 numeral_2_eq_2)

lemma page_loop_two_pages:
  assumes "xs \<noteq> []" "ys \<noteq> []" "2 \<le> max_pages"
    and "returns_hits (net (n_requests tr) (page_request flt 0 h)) xs"
    and "returns_hits (net (n_requests tr + 1) (page_request flt 1 h)) ys"
    and "returns_hits (net (n_requests tr + 2) (page_request flt 2 h)) []"
  shows "fst (page_loop net flt h [0..<max_pages] [] tr) = Inr (xs @ ys)"
    and "requests_of (snd (page_loop net flt h [0..<max_pages] [] tr)) =
           requests_of tr @ map (\<lambda>pg. page_request flt pg h) [0..<min max_pages 3]"
proof -
  let ?t1 = "tr @ [Request (page_request flt 0 h)]"
  let ?t2 = "(?t1 @ [Sleep 1]) @ [Request (page_request flt 1 h)]"
  have s0: "scrape_listings net flt 0 h tr = (JList xs, ?t1)"
    using assms(4) by (rule scrape_listings_hits)
  have s1: "scrape_listings net flt (Suc 0) h (?t1 @ [Sleep (Suc 0)]) = (JList ys, ?t2)"
    using scrape_listings_hits [of net "?t1 @ [Sleep 1]" flt 1 h ys] assms(5) by simp
  have s2: "scrape_listings net flt 2 h (?t2 @ [Sleep (Suc 0)]) =
      (JList [], (?t2 @ [Sleep 1]) @ [Request (page_request flt 2 h)])"
    using scrape_listings_hits [of net "?t2 @ [Sleep 1]" flt 2 h "[]"] assms(6) by simp
  consider "max_pages = 2" | "3 \<le> max_pages" using assms(3) by linarith
  then show "fst (page_loop net flt h [0..<max_pages] [] tr) = Inr (xs @ ys)"
  proof cases
    case 1
    then show ?thesis using s0 s1 assms(1,2) by (simp add: upt_two)
  next
    case 2
    then show ?thesis using s0 s1 s2 assms(1,2) by (simp add: upt_three_more)
  qed
  consider "max_pages = 2" | "3 \<le> max_pages" using assms(3) by linarith
  then show "requests_of (snd (page_loop net flt h [0..<max_pages] [] tr)) =
           requests_of tr @ map (\<lambda>pg. page_request flt pg h) [0..<min max_pages 3]"
  proof cases
    case 1
    then show ?thesis using s0 s1 assms(1,2) by (simp add: upt_two)
  next
    case 2
    then have "min max_pages 3 = 3" by simp
    then show ?thesis using 2 s0 s1 s2 assms(1,2)
      by (simp add: upt_three_more [of max_pages] upt_three_more [of 3])
  qed
qed

section \<open>Properties of the PropertyFinder loop\<close>

lemma fetch_serves:
  assumes "serves (web (n_requests tr) pg) xs"
  shows "fetch_listings_from_page web pg tr = (Inr (JList xs), tr @ [Request pg])"
proof (cases "web (n_requests tr) pg")
  case (Raises e)
  with assms show ?thesis by simp
next
  case (Html status_code d)
  with assms show ?thesis
    by (cases d) (auto simp: fetch_listings_from_page_def)
qed

lemma fetch_no_listings:
  "no_listings (web (n_requests tr) pg) \<Longrightarrow>
   \<exists>l. fetch_listings_from_page web pg tr = (Inr l, tr @ [Request pg]) \<and> \<not> py_truthy l"
  by (cases "web (n_requests tr) pg")
     (auto simp: fetch_listings_from_page_def split: sum.splits option.splits)

lemma scrape_loop_nonempty:
  assumes "serves (web (n_requests (pf_events st)) (page_number st)) xs" "xs \<noteq> []"
  shows "scrape_loop (Suc fuel) web st =
     scrape_loop fuel web
       (st\<lparr>retry_count := 0,
           all_listings := all_listings st @ xs,
           total_properties := total_properties st + length xs,
           page_number := page_number st + 1,
           pf_events := pf_events st @ [Request (page_number st), Sleep 1]\<rparr>)"
  using fetch_serves [of web "pf_events st" "page_number st" xs] assms by simp

lemma scrape_loop_retry:
  assumes "no_listings (web (n_requests (pf_events st)) (page_number st))" "retry_count st < 2"
  shows "scrape_loop (Suc fuel) web st =
     scrape_loop fuel web
       (st\<lparr>retry_count := retry_count st + 1,
           pf_events := pf_events st @ [Request (page_number st), Sleep 2]\<rparr>)"
  using fetch_no_listings [of web "pf_events st" "page_number st"] assms by auto

lemma scrape_loop_stop:
  assumes "no_listings (web (n_requests (pf_events st)) (page_number st))" "2 \<le> retry_count st"
  shows "scrape_loop (Suc fuel) web st =
     Some (Stopped (st\<lparr>retry_count := retry_count st + 1,
                       pf_events := pf_events st @ [Request (page_number st)]\<rparr>))"
  using fetch_no_listings [of web "pf_events st" "page_number st"] assms by auto


lemma next_data_listings_next_data [simp]: "next_data_listings (next_data xs) = Inr (JList xs)"
  by (simp add: next_data_listings_def next_data_def)



lemma returns_hits_hits_body [simp]: "returns_hits (Response (hits_body xs)) ys = (xs = ys)"
  by (simp add: hits_body_def)

lemma scrape_loop_two_pages:
  assumes "xs \<noteq> []" "ys \<noteq> []"
    and "serves (web 0 1) xs" "serves (web 1 2) ys"
    and "no_listings (web 2 3)" "no_listings (web 3 3)" "no_listings (web 4 3)"
  shows "scrape_loop (5 + fuel) web pf_init =
     Some (Stopped \<lparr>page_number = 3, retry_count = 3, all_listings = xs @ ys,
                    total_properties = length xs + length ys,
                    pf_events = [Request 1, Sleep 1, Request 2, Sleep 1,
                                 Request 3, Sleep 2, Request 3, Sleep 2, Request 3]\<rparr>)"
proof -
  define st1 where "st1 = \<lparr>page_number = 2, retry_count = 0, all_listings = xs,
    total_properties = length xs, pf_events = [Request 1, Sleep 1]\<rparr>"
  define st2 where "st2 = \<lparr>page_number = 3, retry_count = 0, all_listings = xs @ ys,
    total_properties = length xs + length ys,
    pf_events = [Request 1, Sleep 1, Request 2, Sleep 1]\<rparr>"
  define st3 where "st3 = \<lparr>page_number = 3, retry_count = 1, all_listings = xs @ ys,
    total_properties = length xs + length ys,
    pf_events = [Request 1, Sleep 1, Request 2, Sleep 1, Request 3, Sleep 2]\<rparr>"
  define st4 where "st4 = \<lparr>page_number = 3, retry_count = 2, all_listings = xs @ ys,
    total_properties = length xs + length ys,
    pf_events = [Request 1, Sleep 1, Request 2, Sleep 1, Request 3, Sleep 2, Request 3, Sleep 2]\<rparr>"
  have e1: "scrape_loop (Suc n) web pf_init = scrape_loop n web st1" for n
    using scrape_loop_nonempty [where st = pf_init and web = web and xs = xs and fuel = n] assms(1,3)
    by (simp del: scrape_loop.simps add: eval_nat_numeral pf_init_def st1_def)
  have e2: "scrape_loop (Suc n) web st1 = scrape_loop n web st2" for n
    using scrape_loop_nonempty [where st = st1 and web = web and xs = ys and fuel = n] assms(2,4)
    by (simp del: scrape_loop.simps add: eval_nat_numeral st1_def st2_def)
  have e3: "scrape_loop (Suc n) web st2 = scrape_loop n web st3" for n
    using scrape_loop_retry [where st = st2 and web = web and fuel = n] assms(5)
    by (simp del: scrape_loop.simps add: eval_nat_numeral st2_def st3_def)
  have e4: "scrape_loop (Suc n) web st3 = scrape_loop n web st4" for n
    using scrape_loop_retry [where st = st3 and web = web and fuel = n] assms(6)
    by (simp del: scrape_loop.simps add: eval_nat_numeral st3_def st4_def)
  have e5: "scrape_loop (Suc n) web st4 =
     Some (Stopped \<lparr>page_number = 3, retry_count = 3, all_listings = xs @ ys,
                    total_properties = length xs + length ys,
                    pf_events = [Request 1, Sleep 1, Request 2, Sleep 1,
                                 Request 3, Sleep 2, Request 3, Sleep 2, Request 3]\<rparr>)" for n
    using scrape_loop_stop [where st = st4 and web = web and fuel = n] assms(7)
    by (simp del: scrape_loop.simps add: eval_nat_numeral st4_def)
  have f: "5 + fuel = Suc (Suc (Suc (Suc (Suc fuel))))" by simp
  show ?thesis unfolding f e1 e2 e3 e4 e5 ..
qed

text \<open>
  C8 (amended). Against an index whose pages 0 and 1 hold the records \<open>xs\<close> and \<open>ys\<close> and
  whose page 2 is empty, the Bayut page loop with a page cap \<open>max_pages\<close> of at least 2
  collects exactly \<open>xs @ ys\<close> and requests the pages below \<open>min max_pages 3\<close>, none
  beyond the empty one. Against a site whose pages 1 and 2 hold \<open>xs\<close> and \<open>ys\<close> and whose
  page 3 is empty, the PropertyFinder loop stops with exactly \<open>xs @ ys\<close>, having requested
  the pages 1, 2, 3, 3, 3 and none beyond the empty one.
\<close>

theorem two_pages_then_empty:
  assumes "xs \<noteq> []" "ys \<noteq> []" "2 \<le> max_pages"
    and "returns_hits (net (n_requests tr) (page_request (base_filters, filter_p r) 0 h)) xs"
    and "returns_hits (net (n_requests tr + 1) (page_request (base_filters, filter_p r) 1 h)) ys"
    and "returns_hits (net (n_requests tr + 2) (page_request (base_filters, filter_p r) 2 h)) []"
    and "serves (web 0 1) xs" "serves (web 1 2) ys"
    and "no_listings (web 2 3)" "no_listings (web 3 3)" "no_listings (web 4 3)"
  shows "fst (fetch_range net base_filters max_pages h r tr) = Inr (xs @ ys)
       \<and> requests_of (snd (fetch_range net base_filters max_pages h r tr)) =
           requests_of tr @
           map (\<lambda>pg. page_request (base_filters, filter_p r) pg h) [0..<min max_pages 3]
       \<and> scrape_loop (5 + fuel) web pf_init =
           Some (Stopped \<lparr>page_number = 3, retry_count = 3, all_listings = xs @ ys,
                          total_properties = length xs + length ys,
                          pf_events = [Request 1, Sleep 1, Request 2, Sleep 1,
                                       Request 3, Sleep 2, Request 3, Sleep 2, Request 3]\<rparr>)"
  unfolding fetch_range_def
  using page_loop_two_pages [OF assms(1-6)] scrape_loop_two_pages [OF assms(1,2,7-11)]
  by blast

theorem two_pages_then_empty_witness:
  "[listing_a] \<noteq> [] \<and> [listing_b] \<noteq> [] \<and> (2::nat) \<le> 1000
   \<and> returns_hits (stub_two_pages (n_requests []) (page_request (''purpose:for-rent'', filter_p budget) 0 50)) [listing_a]
   \<and> returns_hits (stub_two_pages (n_requests [] + 1) (page_request (''purpose:for-rent'', filter_p budget) 1 50)) [listing_b]
   \<and> returns_hits (stub_two_pages (n_requests [] + 2) (page_request (''purpose:for-rent'', filter_p budget) 2 50)) []
   \<and> serves (site_two_pages 0 1) [listing_a] \<and> serves (site_two_pages 1 2) [listing_b]
   \<and> no_listings (site_two_pages 2 3) \<and> no_listings (site_two_pages 3 3)
   \<and> no_listings (site_two_pages 4 3)
   \<and> fst (fetch_range stub_two_pages ''purpose:for-rent'' 1000 50 budget []) = Inr [listing_a, listing_b]
   \<and> requests_of (snd (fetch_range stub_two_pages ''purpose:for-rent'' 1000 50 budget [])) =
        [page_request (''purpose:for-rent'', [PriceLt 20000]) 0 50,
         page_request (''purpose:for-rent'', [PriceLt 20000]) 1 50,
         page_request (''purpose:for-rent'', [PriceLt 20000]) 2 50]
   \<and> scrape_loop 5 site_two_pages pf_init =
        Some (Stopped \<lparr>page_number = 3, retry_count = 3, all_listings = [listing_a, listing_b],
                       total_properties = 2,
                       pf_events = [Request 1, Sleep 1, Request 2, Sleep 1,
                                    Request 3, Sleep 2, Request 3, Sleep 2, Request 3]\<rparr>)"
proof -
  have h1: "[listing_a] \<noteq> []" and h2: "[listing_b] \<noteq> []" and h3: "(2::nat) \<le> 1000"
    by simp_all
  have h4: "returns_hits (stub_two_pages (n_requests []) (page_request (''purpose:for-rent'', filter_p budget) 0 50)) [listing_a]"
    by (simp add: stub_two_pages_def page_request_def)
  have h5: "returns_hits (stub_two_pages (n_requests [] + 1) (page_request (''purpose:for-rent'', filter_p budget) 1 50)) [listing_b]"
    by (simp add: stub_two_pages_def page_request_def)
  have h6: "returns_hits (stub_two_pages (n_requests [] + 2) (page_request (''purpose:for-rent'', filter_p budget) 2 50)) []"
    by (simp add: stub_two_pages_def page_request_def)
  have h7: "serves (site_two_pages 0 1) [listing_a]" and h8: "serves (site_two_pages 1 2) [listing_b]"
    by (simp_all add: site_two_pages_def)
  have h9: "no_listings (site_two_pages 2 3)" and h10: "no_listings (site_two_pages 3 3)"
    and h11: "no_listings (site_two_pages 4 3)"
    by (simp_all add: site_two_pages_def)
  have m: "min (1000::nat) 3 = 3" by simp
  have u: "[0..<3] = [0, 1, 2]" by (simp add: upt_rec)
  show ?thesis
    using two_pages_then_empty [where xs = "[listing_a]" and ys = "[listing_b]"
        and max_pages = 1000 and net = stub_two_pages and tr = "[]"
        and base_filters = "''purpose:for-rent''" and r = budget and h = 50
        and web = site_two_pages and fuel = 0,
        OF h1 h2 h3 h4 h5 h6 h7 h8 h9 h10 h11]
      h1 h2 h3 h4 h5 h6 h7 h8 h9 h10 h11
    unfolding m u
    by (simp add: budget_def)
qed

text \<open>With the default page cap \<open>max_pages = 1\<close> of \<open>price_range_scrape\<close> the same index
  yields the first page only.\<close>

theorem two_pages_page_cap_counterexample:
  "returns_hits (stub_two_pages 0 (page_request (''purpose:for-rent'', filter_p budget) 0 50)) [listing_a]
   \<and> returns_hits (stub_two_pages 1 (page_request (''purpose:for-rent'', filter_p budget) 1 50)) [listing_b]
   \<and> returns_hits (stub_two_pages 2 (page_request (''purpose:for-rent'', filter_p budget) 2 50)) []
   \<and> fst (fetch_range stub_two_pages ''purpose:for-rent'' 1 50 budget []) = Inr [listing_a]
   \<and> fst (fetch_range stub_two_pages ''purpose:for-rent'' 1 50 budget []) \<noteq> Inr ([listing_a] @ [listing_b])"
  by (simp add: fetch_range_def scrape_listings_def make_request_first_response
      stub_two_pages_def page_request_def hits_body_def)

lemma scrape_loop_Suc:
  "scrape_loop (Suc fuel) web st =
     (case pf_iter web st of Inl r \<Rightarrow> Some r | Inr st' \<Rightarrow> scrape_loop fuel web st')"
  by (simp add: pf_iter_def split: prod.splits sum.splits)

lemma n_requests_length: "n_requests tr = length (requests_of tr)"
  by (induction tr) (auto simp: n_requests_def requests_of_def split: event.splits)

lemma fetch_events:
  "snd (fetch_listings_from_page web pg tr) = tr @ [Request pg]"
  by (simp add: fetch_listings_from_page_def split: web_response.splits option.splits)

lemma fetch_truthy:
  "fetch_listings_from_page web pg tr = (Inr l, tr') \<Longrightarrow>
   py_truthy l = has_listings (web (n_requests tr) pg)"
  by (cases "web (n_requests tr) pg")
     (auto simp: fetch_listings_from_page_def split: option.splits if_splits sum.splits)

text \<open>An iteration sends one request, for the page of the cursor. When the loop goes on,
  the cursor has moved by one if the request returned listings and not at all otherwise,
  and the counter of empty fetches is below 3.\<close>

lemma pf_iter_next:
  assumes "pf_iter web st = Inr st'"
  shows "requests_of (pf_events st') = requests_of (pf_events st) @ [page_number st]"
    and "page_number st' = next_page (web (n_requests (pf_events st)) (page_number st)) (page_number st)"
    and "retry_count st' =
      (if has_listings (web (n_requests (pf_events st)) (page_number st))
       then 0 else retry_count st + 1)"
    and "retry_count st' < 3"
proof -
  obtain res tr where f: "fetch_listings_from_page web (page_number st) (pf_events st) = (res, tr)"
    by (cases "fetch_listings_from_page web (page_number st) (pf_events st)")
  have tr: "tr = pf_events st @ [Request (page_number st)]"
    using fetch_events [of web "page_number st" "pf_events st"] f by simp
  from assms f obtain l where res: "res = Inr l"
    by (cases res) (auto simp: pf_iter_def)
  have t: "py_truthy l = has_listings (web (n_requests (pf_events st)) (page_number st))"
    using fetch_truthy f res by blast
  show "requests_of (pf_events st') = requests_of (pf_events st) @ [page_number st]"
    using assms f res tr by (auto simp: pf_iter_def split: if_splits sum.splits)
  show "page_number st' = next_page (web (n_requests (pf_events st)) (page_number st)) (page_number st)"
    using assms f res t by (auto simp: pf_iter_def next_page_def split: if_splits sum.splits)
  show "retry_count st' =
      (if has_listings (web (n_requests (pf_events st)) (page_number st))
       then 0 else retry_count st + 1)"
    using assms f res t by (auto simp: pf_iter_def split: if_splits sum.splits)
  show "retry_count st' < 3"
    using assms f res t by (auto simp: pf_iter_def split: if_splits sum.splits)
qed

lemma pf_iter_final:
  assumes "pf_iter web st = Inl r"
  shows "requests_of (pf_events (final_state r)) = requests_of (pf_events st) @ [page_number st]"
    and "page_number (final_state r) = page_number st"
proof -
  obtain res tr where f: "fetch_listings_from_page web (page_number st) (pf_events st) = (res, tr)"
    by (cases "fetch_listings_from_page web (page_number st) (pf_events st)")
  have tr: "tr = pf_events st @ [Request (page_number st)]"
    using fetch_events [of web "page_number st" "pf_events st"] f by simp
  show "requests_of (pf_events (final_state r)) = requests_of (pf_events st) @ [page_number st]"
    using assms f tr by (auto simp: pf_iter_def split: if_splits sum.splits)
  show "page_number (final_state r) = page_number st"
    using assms f by (auto simp: pf_iter_def split: if_splits sum.splits)
qed

lemma cursor_follows_snoc:
  "cursor_follows web k (xs @ [p]) \<Longrightarrow>
   q = next_page (web (k + length xs) p) p \<Longrightarrow>
   cursor_follows web k (xs @ [p, q])"
proof (induction xs arbitrary: k)
  case Nil
  then show ?case by simp
next
  case (Cons x xs)
  show ?case
  proof (cases xs)
    case Nil
    with Cons.prems show ?thesis by simp
  next
    case (Cons y ys)
    from Cons.prems(1) Cons have h: "y = next_page (web k x) x"
      and t: "cursor_follows web (Suc k) (xs @ [p])" by auto
    have "q = next_page (web (Suc k + length xs) p) p" using Cons.prems(2) by simp
    with t have "cursor_follows web (Suc k) (xs @ [p, q])" by (rule Cons.IH)
    with h Cons show ?thesis by auto
  qed
qed

lemma cursor_follows_append1:
  assumes "cursor_follows web 0 reqs"
    and "reqs \<noteq> [] \<Longrightarrow>
         p = next_page (web (length reqs - 1) (last reqs)) (last reqs)"
  shows "cursor_follows web 0 (reqs @ [p])"
proof (cases reqs rule: rev_cases)
  case Nil
  then show ?thesis by simp
next
  case (snoc xs x)
  then show ?thesis
    using cursor_follows_snoc [of web 0 xs x p] assms by simp
qed

lemma pf_inv_init: "pf_inv web pf_init"
  by (simp add: pf_inv_def pf_init_def)

lemma inv_request:
  assumes "pf_inv web st"
  defines "reqs \<equiv> requests_of (pf_events st)" and "p \<equiv> page_number st"
  shows "sorted (reqs @ [p])" and "set (reqs @ [p]) = {1..p}"
    and "\<forall>q. count_list (reqs @ [p]) q \<le> 3"
    and "cursor_follows web 0 (reqs @ [p])" and "hd (reqs @ [p]) = 1"
    and "count_list (reqs @ [p]) p = retry_count st + 1"
    and "count_list (reqs @ [p]) (p + 1) = 0"
proof -
  from assms have a: "1 \<le> p" "retry_count st < 3" "sorted reqs" "set reqs \<subseteq> {1..p}"
    "{1..<p} \<subseteq> set reqs" "count_list reqs p = retry_count st" "\<forall>q. count_list reqs q \<le> 3"
    "cursor_follows web 0 reqs"
    and b: "if reqs = [] then p = 1 else hd reqs = 1 \<and>
                p = next_page (web (length reqs - 1) (last reqs)) (last reqs)"
    by (simp_all add: pf_inv_def Let_def)
  show "sorted (reqs @ [p])" using a(3,4) by (auto simp: sorted_append)
  show "set (reqs @ [p]) = {1..p}"
  proof
    show "set (reqs @ [p]) \<subseteq> {1..p}" using a(1,4) by auto
    show "{1..p} \<subseteq> set (reqs @ [p])"
    proof
      fix x assume "x \<in> {1..p}"
      then have "x = p \<or> x \<in> {1..<p}" by auto
      then show "x \<in> set (reqs @ [p])" using a(5) by auto
    qed
  qed
  show "\<forall>q. count_list (reqs @ [p]) q \<le> 3"
  proof
    fix q
    show "count_list (reqs @ [p]) q \<le> 3"
    proof (cases "q = p")
      case True
      then show ?thesis using a(2,6) by simp
    next
      case False
      then show ?thesis using a(7) by simp
    qed
  qed
  show "cursor_follows web 0 (reqs @ [p])"
    using a(8) b by (intro cursor_follows_append1) (auto split: if_splits)
  show "hd (reqs @ [p]) = 1" using b by (cases reqs) (auto split: if_splits)
  show "count_list (reqs @ [p]) p = retry_count st + 1" using a(6) by simp
  have "p + 1 \<notin> set reqs" using a(4) by auto
  then show "count_list (reqs @ [p]) (p + 1) = 0" by (simp add: count_list_0_iff)
qed

lemma pf_inv_step:
  assumes "pf_inv web st" "pf_iter web st = Inr st'"
  shows "pf_inv web st'"
proof -
  define reqs where "reqs = requests_of (pf_events st)"
  define p where "p = page_number st"
  define w where "w = web (length reqs) p"
  define p' where "p' = page_number st'"
  note r = inv_request [OF assms(1), folded reqs_def p_def]
  have n1: "requests_of (pf_events st') = reqs @ [p]"
    using pf_iter_next(1) [OF assms(2)] by (simp add: reqs_def p_def)
  have n2: "p' = next_page w p"
    using pf_iter_next(2) [OF assms(2)] by (simp add: reqs_def p_def w_def p'_def n_requests_length)
  have n3: "retry_count st' = (if has_listings w then 0 else retry_count st + 1)"
    using pf_iter_next(3) [OF assms(2)] by (simp add: reqs_def p_def w_def n_requests_length)
  have n4: "retry_count st' < 3"
    using pf_iter_next(4) [OF assms(2)] .
  from assms(1) have p1: "1 \<le> p" by (simp add: pf_inv_def Let_def p_def)
  have le: "p \<le> p'" "p' \<le> p + 1"
    using n2 by (simp_all add: next_page_def)
  have c: "count_list (reqs @ [p]) p' = retry_count st'"
  proof (cases "has_listings w")
    case True
    then show ?thesis using n2 n3 r(7) by (simp add: next_page_def)
  next
    case False
    then show ?thesis using n2 n3 r(6) by (simp add: next_page_def)
  qed
  have s1: "set (reqs @ [p]) \<subseteq> {1..p'}"
    unfolding r(2) using le by auto
  have s2: "{1..<p'} \<subseteq> set (reqs @ [p])"
    unfolding r(2) using le by auto
  have l: "p' = next_page (web (length (reqs @ [p]) - 1) (last (reqs @ [p]))) (last (reqs @ [p]))"
    using n2 by (simp add: w_def)
  have ne: "reqs @ [p] \<noteq> []" by simp
  have "1 \<le> p'" using p1 le by simp
  then show ?thesis
    unfolding pf_inv_def Let_def n1 p'_def [symmetric]
    using n4 r(1) s1 s2 c r(3) r(4) r(5) l ne
    by (simp only: if_False simp_thms)
qed

lemma pf_inv_final:
  assumes "pf_inv web st" "pf_iter web st = Inl r"
  shows "cursor_follows web 0 (requests_of (pf_events (final_state r)))"
    and "hd (requests_of (pf_events (final_state r))) = 1"
    and "sorted (requests_of (pf_events (final_state r)))"
    and "set (requests_of (pf_events (final_state r))) = {1..page_number (final_state r)}"
    and "\<forall>q. count_list (requests_of (pf_events (final_state r))) q \<le> 3"
  unfolding pf_iter_final [OF assms(2)]
  using inv_request [OF assms(1)] by blast+

lemma scrape_loop_inv:
  assumes "scrape_loop fuel web st = Some r" "pf_inv web st"
  shows "cursor_follows web 0 (requests_of (pf_events (final_state r)))
       \<and> hd (requests_of (pf_events (final_state r))) = 1
       \<and> sorted (requests_of (pf_events (final_state r)))
       \<and> set (requests_of (pf_events (final_state r))) = {1..page_number (final_state r)}
       \<and> (\<forall>q. count_list (requests_of (pf_events (final_state r))) q \<le> 3)"
  using assms
proof (induction fuel arbitrary: st)
  case 0
  then show ?case by simp
next
  case (Suc fuel)
  show ?case
  proof (cases "pf_iter web st")
    case (Inl r')
    with Suc.prems(1) have "r' = r" by (simp add: scrape_loop_Suc del: scrape_loop.simps)
    with Inl have i: "pf_iter web st = Inl r" by simp
    show ?thesis using pf_inv_final [OF Suc.prems(2) i] by blast
  next
    case (Inr st')
    with Suc.prems(1) have "scrape_loop fuel web st' = Some r"
      by (simp add: scrape_loop_Suc del: scrape_loop.simps)
    moreover have "pf_inv web st'" using Suc.prems(2) Inr by (rule pf_inv_step)
    ultimately show ?thesis by (rule Suc.IH)
  qed
qed

lemma site_transient_run:
  "scrape_loop 5 site_transient pf_init =
     Some (Stopped \<lparr>page_number = 2, retry_count = 3, all_listings = [listing_a],
                    total_properties = 1,
                    pf_events = [Request 1, Sleep 2, Request 1, Sleep 1,
                                 Request 2, Sleep 2, Request 2, Sleep 2, Request 2]\<rparr>)"
  by (simp add: pf_init_def site_transient_def fetch_listings_from_page_def eval_nat_numeral)

text \<open>
  C10. In every run of the PropertyFinder loop that ends, the page numbers requested
  start at 1 and follow the cursor rule: after a request that returned listings the next
  request asks for the next page, after an empty or failed one it asks for the same page
  again. So the requested pages never go back, every page from 1 up to the last cursor
  position is requested (none is skipped), and no page is requested more than 3 times.
\<close>

theorem page_cursor_rule:
  assumes "scrape_loop fuel web pf_init = Some r"
  shows "cursor_follows web 0 (requests_of (pf_events (final_state r)))
       \<and> hd (requests_of (pf_events (final_state r))) = 1
       \<and> sorted (requests_of (pf_events (final_state r)))
       \<and> set (requests_of (pf_events (final_state r))) = {1..page_number (final_state r)}
       \<and> (\<forall>q. count_list (requests_of (pf_events (final_state r))) q \<le> 3)"
  using assms pf_inv_init by (rule scrape_loop_inv)

theorem page_cursor_rule_witness:
  "scrape_loop 5 site_transient pf_init =
     Some (Stopped \<lparr>page_number = 2, retry_count = 3, all_listings = [listing_a],
                    total_properties = 1,
                    pf_events = [Request 1, Sleep 2, Request 1, Sleep 1,
                                 Request 2, Sleep 2, Request 2, Sleep 2, Request 2]\<rparr>)
   \<and> cursor_follows site_transient 0 [1, 1, 2, 2, 2]
   \<and> hd [1, 1, 2, 2, 2 :: nat] = 1
   \<and> sorted [1, 1, 2, 2, 2 :: nat]
   \<and> set [1, 1, 2, 2, 2 :: nat] = {1..2}
   \<and> (\<forall>q. count_list [1, 1, 2, 2, 2 :: nat] q \<le> 3)"
  using page_cursor_rule [OF site_transient_run] site_transient_run
  by auto

section \<open>Properties of the hierarchy walk\<close>





section \<open>Normalization and the clock\<close>

lemma same_but_date_refl: "same_but_date r r"
  by (simp add: same_but_date_def list_all2_same)

lemma same_but_date_df_refl: "same_but_date_df df df"
  by (simp add: same_but_date_df_def list_all2_same same_but_date_refl)

lemma same_but_date_map_of:
  "same_but_date r r' \<Longrightarrow> c \<noteq> ''scrape_date'' \<Longrightarrow> map_of r c = map_of r' c"
  unfolding same_but_date_def
  by (induction r r' rule: list_all2_induct) (auto simp del: One_nat_def)

lemma same_but_date_cell:
  "same_but_date r r' \<Longrightarrow> c \<noteq> ''scrape_date'' \<Longrightarrow> cell_of r c = cell_of r' c"
  by (simp add: cell_of_def same_but_date_map_of)

lemma same_but_date_update:
  "same_but_date r r' \<Longrightarrow> c = ''scrape_date'' \<or> v = v' \<Longrightarrow>
   same_but_date (AList.update c v r) (AList.update c v' r')"
  unfolding same_but_date_def
  by (induction r r' rule: list_all2_induct) auto

lemma same_but_date_rename:
  "same_but_date r r' \<Longrightarrow> old \<noteq> ''scrape_date'' \<Longrightarrow> new \<noteq> ''scrape_date'' \<Longrightarrow>
   same_but_date (map (\<lambda>kv. (if fst kv = old then new else fst kv, snd kv)) r)
                 (map (\<lambda>kv. (if fst kv = old then new else fst kv, snd kv)) r')"
  unfolding same_but_date_def
  by (induction r r' rule: list_all2_induct) auto

lemma same_but_date_filter:
  "same_but_date r r' \<Longrightarrow>
   same_but_date (filter (\<lambda>kv. P (fst kv)) r) (filter (\<lambda>kv. P (fst kv)) r')"
  unfolding same_but_date_def
  by (induction r r' rule: list_all2_induct) auto

lemma same_but_date_append:
  "same_but_date a a' \<Longrightarrow> same_but_date b b' \<Longrightarrow> same_but_date (a @ b) (a' @ b')"
  unfolding same_but_date_def by (rule list_all2_appendI)

lemma same_but_date_select:
  "same_but_date r r' \<Longrightarrow>
   same_but_date (concat (map (\<lambda>c. filter (\<lambda>kv. fst kv = c) r) cs))
                 (concat (map (\<lambda>c. filter (\<lambda>kv. fst kv = c) r') cs))"
proof (induction cs)
  case Nil
  then show ?case by (simp add: same_but_date_def)
next
  case (Cons c cs)
  have "same_but_date (filter (\<lambda>kv. fst kv = c) r) (filter (\<lambda>kv. fst kv = c) r')"
    using same_but_date_filter [OF Cons.prems, of "\<lambda>k. k = c"] .
  with Cons show ?case by (simp add: same_but_date_append)
qed

lemma same_but_date_drop:
  "same_but_date r r' \<Longrightarrow>
   filter (\<lambda>kv. fst kv \<noteq> ''scrape_date'') r = filter (\<lambda>kv. fst kv \<noteq> ''scrape_date'') r'"
  unfolding same_but_date_def
  by (induction r r' rule: list_all2_induct) (auto simp: prod_eq_iff)

lemma same_but_date_df_get:
  assumes "same_but_date_df df df'" "c \<noteq> ''scrape_date''"
  shows "df_get df c = df_get df' c"
proof -
  have "list_all2 same_but_date rs rs' \<Longrightarrow> map (\<lambda>r. cell_of r c) rs = map (\<lambda>r. cell_of r c) rs'"
    for rs rs'
    by (induction rs rs' rule: list_all2_induct) (simp_all add: same_but_date_cell assms(2))
  with assms(1) show ?thesis by (simp add: df_get_def same_but_date_df_def)
qed

lemma same_but_date_zip_update:
  "list_all2 same_but_date rs rs' \<Longrightarrow> list_all2 (\<lambda>v v'. c = ''scrape_date'' \<or> v = v') s s' \<Longrightarrow>
   list_all2 same_but_date (map (\<lambda>rv. AList.update c (snd rv) (fst rv)) (zip rs s))
                           (map (\<lambda>rv. AList.update c (snd rv) (fst rv)) (zip rs' s'))"
proof (induction rs rs' arbitrary: s s' rule: list_all2_induct)
  case Nil
  then show ?case by simp
next
  case (Cons r rs r' rs')
  show ?case
  proof (cases s)
    case Nil
    with Cons.prems show ?thesis by simp
  next
    case c1: (Cons v vs)
    with Cons.prems obtain v' vs' where s': "s' = v' # vs'"
      and v: "c = ''scrape_date'' \<or> v = v'"
      and vs: "list_all2 (\<lambda>v v'. c = ''scrape_date'' \<or> v = v') vs vs'"
      by (cases s') auto
    show ?thesis
      using Cons.hyps(1) v Cons.IH [OF vs] by (simp add: c1 s' same_but_date_update)
  qed
qed

lemma same_but_date_df_set:
  assumes "same_but_date_df df df'" "list_all2 (\<lambda>v v'. c = ''scrape_date'' \<or> v = v') s s'"
  shows "same_but_date_df (df_set df c s) (df_set df' c s')"
  using assms by (simp add: same_but_date_df_def df_set_def same_but_date_zip_update)

lemma same_but_date_df_set_same:
  "same_but_date_df df df' \<Longrightarrow> same_but_date_df (df_set df c s) (df_set df' c s)"
  by (rule same_but_date_df_set) (simp_all add: list_all2_same)

lemma same_but_date_derive:
  assumes "same_but_date_df df df'" "src \<noteq> ''scrape_date''"
  shows "rel_sum (=) same_but_date_df (derive c src f df) (derive c src f df')"
  unfolding derive_def same_but_date_df_get [OF assms]
  using assms(1) by (auto split: sum.splits intro: same_but_date_df_set_same)

lemma same_but_date_derive2:
  assumes "same_but_date_df df df'" "src \<noteq> ''scrape_date''"
  shows "rel_sum (=) same_but_date_df (derive2 c1 c2 src f df) (derive2 c1 c2 src f df')"
  unfolding derive2_def same_but_date_df_get [OF assms]
  using assms(1) by (auto split: sum.splits intro!: same_but_date_df_set_same)

lemma same_but_date_df_rename:
  assumes "same_but_date_df df df'" "old \<noteq> ''scrape_date''" "new \<noteq> ''scrape_date''"
  shows "same_but_date_df (df_rename old new df) (df_rename old new df')"
proof -
  have "list_all2 same_but_date rs rs' \<Longrightarrow>
    list_all2 same_but_date
      (map (map (\<lambda>kv. (if fst kv = old then new else fst kv, snd kv))) rs)
      (map (map (\<lambda>kv. (if fst kv = old then new else fst kv, snd kv))) rs')" for rs rs'
    by (induction rs rs' rule: list_all2_induct) (simp_all add: same_but_date_rename assms(2,3))
  with assms(1) show ?thesis by (simp add: same_but_date_df_def df_rename_def)
qed

lemma same_but_date_df_select:
  assumes "same_but_date_df df df'"
  shows "rel_sum (=) same_but_date_df (df_select cs df) (df_select cs df')"
proof -
  have "list_all2 same_but_date rs rs' \<Longrightarrow>
    list_all2 same_but_date
      (map (\<lambda>r. concat (map (\<lambda>c. filter (\<lambda>kv. fst kv = c) r) cs)) rs)
      (map (\<lambda>r. concat (map (\<lambda>c. filter (\<lambda>kv. fst kv = c) r) cs)) rs')" for rs rs'
    by (induction rs rs' rule: list_all2_induct) (simp_all add: same_but_date_select)
  with assms show ?thesis
    by (auto simp: same_but_date_df_def df_select_def split: list.splits)
qed

lemma same_but_date_mask:
  "list_all2 same_but_date rs rs' \<Longrightarrow>
   list_all2 same_but_date (map fst (filter (\<lambda>rv. snd rv = x) (zip rs vs)))
                           (map fst (filter (\<lambda>rv. snd rv = x) (zip rs' vs)))"
proof (induction rs rs' arbitrary: vs rule: list_all2_induct)
  case Nil
  then show ?case by simp
next
  case (Cons r rs r' rs')
  then show ?case by (cases vs) simp_all
qed

lemma same_but_date_df_where_eq:
  assumes "same_but_date_df df df'" "c \<noteq> ''scrape_date''"
  shows "rel_sum (=) same_but_date_df (df_where_eq c s df) (df_where_eq c s df')"
  unfolding df_where_eq_def same_but_date_df_get [OF assms]
  using assms(1) by (auto simp: same_but_date_df_def same_but_date_mask split: sum.splits)

lemma run_steps_related:
  assumes "\<And>f df df'. f \<in> set fs \<Longrightarrow> same_but_date_df df df' \<Longrightarrow>
             rel_sum (=) same_but_date_df (f df) (f df')"
    and "same_but_date_df df df'"
  shows "rel_sum (=) same_but_date_df (run_steps fs df) (run_steps fs df')"
  using assms
proof (induction fs arbitrary: df df')
  case Nil
  then show ?case by simp
next
  case (Cons f fs)
  have r: "rel_sum (=) same_but_date_df (f df) (f df')"
    using Cons.prems by simp
  show ?case
  proof (cases "f df")
    case (Inl e)
    with r show ?thesis by (cases "f df'") simp_all
  next
    case (Inr d)
    with r obtain d' where d': "f df' = Inr d'" and dd: "same_but_date_df d d'"
      by (cases "f df'") simp_all
    have "rel_sum (=) same_but_date_df (run_steps fs d) (run_steps fs d')"
      using Cons.prems(1) dd by (intro Cons.IH) simp_all
    with Inr d' show ?thesis by simp
  qed
qed

lemma normalize_steps_head:
  "normalize_steps str_of now =
     (\<lambda>df. Inr (df_set df ''scrape_date'' (replicate (length (rows df)) (JStr now))))
     # tl (normalize_steps str_of now)"
  by (simp add: normalize_steps_def)

lemma normalize_steps_tail: "tl (normalize_steps str_of now) = tl (normalize_steps str_of now')"
  by (simp add: normalize_steps_def)

lemma normalize_steps_related:
  assumes "f \<in> set (tl (normalize_steps str_of now))" "same_but_date_df df df'"
  shows "rel_sum (=) same_but_date_df (f df) (f df')"
proof -
  have d: "rel_sum (=) same_but_date_df (derive c src g df) (derive c src g df')"
    if "src \<noteq> ''scrape_date''" for c src g
    using assms(2) that by (rule same_but_date_derive)
  have d2: "rel_sum (=) same_but_date_df (derive2 c1 c2 src g df) (derive2 c1 c2 src g df')"
    if "src \<noteq> ''scrape_date''" for c1 c2 src g
    using assms(2) that by (rule same_but_date_derive2)
  have r: "rel_sum (=) same_but_date_df (Inr (df_rename old new df)) (Inr (df_rename old new df'))"
    if "old \<noteq> ''scrape_date''" "new \<noteq> ''scrape_date''" for old new
    using same_but_date_df_rename [OF assms(2) that] by simp
  have s: "rel_sum (=) same_but_date_df (df_select cs df) (df_select cs df')" for cs
    using assms(2) by (rule same_but_date_df_select)
  have w: "rel_sum (=) same_but_date_df (df_where_eq c x df) (df_where_eq c x df')"
    if "c \<noteq> ''scrape_date''" for c x
    using assms(2) that by (rule same_but_date_df_where_eq)
  from assms(1) show ?thesis
    unfolding normalize_steps_def list.sel set_simps insert_iff empty_iff
    by (elim disjE FalseE; simp add: d d2 s w same_but_date_df_rename [OF assms(2)])
qed

lemma dated_set_date:
  "dated now (df_set df ''scrape_date'' (replicate (length (rows df)) (JStr now)))"
  by (simp add: dated_def df_set_def zip_replicate2 list_all_iff update_conv')

lemma dated_df_set:
  assumes "dated now df" "c \<noteq> ''scrape_date''"
  shows "dated now (df_set df c s)"
  using assms
  by (auto simp: dated_def df_set_def list_all_iff update_conv' dest!: set_zip_leftD)

lemma dated_derive:
  assumes "dated now df" "c \<noteq> ''scrape_date''"
  shows "case derive c src f df of Inl e \<Rightarrow> True | Inr df' \<Rightarrow> dated now df'"
  using assms by (simp add: derive_def dated_df_set split: sum.splits)

lemma dated_derive2:
  assumes "dated now df" "c1 \<noteq> ''scrape_date''" "c2 \<noteq> ''scrape_date''"
  shows "case derive2 c1 c2 src f df of Inl e \<Rightarrow> True | Inr df' \<Rightarrow> dated now df'"
  using assms by (simp add: derive2_def dated_df_set split: sum.splits)

lemma map_of_rename:
  "old \<noteq> k \<Longrightarrow> new \<noteq> k \<Longrightarrow>
   map_of (map (\<lambda>kv. (if fst kv = old then new else fst kv, snd kv)) r) k = map_of r k"
  by (induction r) auto

lemma dated_rename:
  assumes "dated now df" "old \<noteq> ''scrape_date''" "new \<noteq> ''scrape_date''"
  shows "dated now (df_rename old new df)"
  using assms by (simp add: dated_def df_rename_def list_all_iff map_of_rename)

lemma map_of_select:
  "map_of (concat (map (\<lambda>c. filter (\<lambda>kv. fst kv = c) r) cs)) k =
     (if k \<in> set cs then map_of r k else None)"
proof (induction cs)
  case Nil
  then show ?case by simp
next
  case (Cons c cs)
  have f: "map_of (filter (\<lambda>kv. fst kv = c) r) k = (if k = c then map_of r k else None)"
    by (induction r) auto
  show ?case
    using Cons by (auto simp: map_add_def f split: option.splits)
qed

lemma dated_select:
  assumes "dated now df" "''scrape_date'' \<in> set cs"
  shows "case df_select cs df of Inl e \<Rightarrow> True | Inr df' \<Rightarrow> dated now df'"
  using assms
  by (auto simp: df_select_def dated_def list_all_iff map_of_select split: list.splits)

lemma dated_where_eq:
  assumes "dated now df"
  shows "case df_where_eq c s df of Inl e \<Rightarrow> True | Inr df' \<Rightarrow> dated now df'"
  using assms
  by (auto simp: df_where_eq_def dated_def list_all_iff split: sum.splits dest!: set_zip_leftD)

lemma normalize_steps_dated:
  assumes "f \<in> set (tl (normalize_steps str_of now'))" "dated now df"
  shows "case f df of Inl e \<Rightarrow> True | Inr df' \<Rightarrow> dated now df'"
proof -
  have s: "''scrape_date'' \<in> set desired_columns" by (simp add: desired_columns_def)
  from assms(1) show ?thesis
    unfolding normalize_steps_def list.sel set_simps insert_iff empty_iff
    by (elim disjE FalseE;
        simp add: dated_derive [OF assms(2)] dated_derive2 [OF assms(2)]
          dated_rename [OF assms(2)] dated_select [OF assms(2) s] dated_where_eq [OF assms(2)])
qed

lemma run_steps_dated:
  assumes "\<And>f df. f \<in> set fs \<Longrightarrow> dated now df \<Longrightarrow>
             (case f df of Inl e \<Rightarrow> True | Inr df' \<Rightarrow> dated now df')"
    and "dated now df"
  shows "case run_steps fs df of Inl e \<Rightarrow> True | Inr df' \<Rightarrow> dated now df'"
  using assms
proof (induction fs arbitrary: df)
  case Nil
  then show ?case by simp
next
  case (Cons f fs)
  show ?case
  proof (cases "f df")
    case (Inl e)
    then show ?thesis by simp
  next
    case (Inr d)
    have "dated now d" using Cons.prems(1) [of f df] Cons.prems(2) Inr by simp
    then have "case run_steps fs d of Inl e \<Rightarrow> True | Inr df' \<Rightarrow> dated now df'"
      using Cons.prems(1) by (intro Cons.IH) simp_all
    with Inr show ?thesis by simp
  qed
qed

lemma same_but_date_df_drop:
  assumes "same_but_date_df df df'"
  shows "drop_column ''scrape_date'' df = drop_column ''scrape_date'' df'"
proof -
  have "list_all2 same_but_date rs rs' \<Longrightarrow>
    map (filter (\<lambda>kv. fst kv \<noteq> ''scrape_date'')) rs =
    map (filter (\<lambda>kv. fst kv \<noteq> ''scrape_date'')) rs'" for rs rs'
    by (induction rs rs' rule: list_all2_induct) (simp_all add: same_but_date_drop)
  with assms show ?thesis by (simp add: drop_column_def same_but_date_df_def)
qed

lemma related_without_scrape_date:
  assumes "rel_sum (=) same_but_date_df res res'"
  shows "without_scrape_date res = without_scrape_date res'"
proof (cases res)
  case (Inl e)
  with assms show ?thesis by (cases res') (simp_all add: without_scrape_date_def)
next
  case (Inr d)
  with assms show ?thesis
    by (cases res') (simp_all add: without_scrape_date_def same_but_date_df_drop)
qed

text \<open>
  C9. The normalization block reads nothing but the fetched records and the clock, and
  the clock reading reaches the result in one place only: two applications to the same
  records, at the times \<open>now\<close> and \<open>now'\<close>, raise the same error or give frames that are
  equal outside the column \<open>scrape_date\<close>, and every row of a result has the time of its
  application under \<open>scrape_date\<close>. With the same capture timestamp the two results are
  therefore identical.
\<close>

theorem normalize_depends_on_clock_by_scrape_date_only:
  "without_scrape_date (normalize str_of now records) =
     without_scrape_date (normalize str_of now' records)
   \<and> (case normalize str_of now records of Inl e \<Rightarrow> True | Inr df \<Rightarrow> dated now df)"
proof (cases "data_frame records")
  case (Inl e)
  then show ?thesis by (simp add: normalize_def)
next
  case (Inr df0)
  define a where "a = df_set df0 ''scrape_date'' (replicate (length (rows df0)) (JStr now))"
  define a' where "a' = df_set df0 ''scrape_date'' (replicate (length (rows df0)) (JStr now'))"
  define later where "later = tl (normalize_steps str_of now)"
  have n: "normalize str_of now records = run_steps later a"
    unfolding normalize_def Inr later_def a_def
    by (subst normalize_steps_head) simp
  have n': "normalize str_of now' records = run_steps later a'"
    unfolding normalize_def Inr later_def a'_def normalize_steps_tail [of str_of now now']
    by (subst normalize_steps_head) simp
  have "same_but_date_df a a'"
    unfolding a_def a'_def
    by (intro same_but_date_df_set same_but_date_df_refl) (simp add: list_all2_conv_all_nth)
  then have "rel_sum (=) same_but_date_df (run_steps later a) (run_steps later a')"
    unfolding later_def by (intro run_steps_related normalize_steps_related)
  then have 1: "without_scrape_date (normalize str_of now records) =
     without_scrape_date (normalize str_of now' records)"
    unfolding n n' by (rule related_without_scrape_date)
  have "dated now a" unfolding a_def by (rule dated_set_date)
  then have 2: "case run_steps later a of Inl e \<Rightarrow> True | Inr df \<Rightarrow> dated now df"
    unfolding later_def by (intro run_steps_dated normalize_steps_dated)
  show ?thesis using 1 2 unfolding n by simp
qed

section \<open>Properties of the consolidation\<close>















section \<open>Properties of the run over the price ranges\<close>
















section \<open>Normalization, row by row\<close>

lemma set_first_seen [simp]: "set (first_seen ks) = set ks"
  by (simp add: first_seen_def)

lemma distinct_first_seen [simp]: "distinct (first_seen ks)"
  by (simp add: first_seen_def)

lemma set_add_column [simp]: "set (add_column c cs) = insert c (set cs)"
  by (auto simp: add_column_def)

lemma distinct_add_column [simp]: "distinct (add_column c cs) = distinct cs"
  by (simp add: add_column_def)

lemma data_frame_dicts:
  "data_frame (map JDict ds) =
     Inr \<lparr>columns = first_seen (concat (map (map fst) ds)),
          rows = map (\<lambda>d. map (\<lambda>k. (k, cell_of d k)) (first_seen (concat (map (map fst) ds)))) ds\<rparr>"
proof -
  have "list_all is_dict (map JDict ds)" by (simp add: list_all_iff)
  moreover have "map dict_items (map JDict ds) = ds" by (simp add: map_idI)
  ultimately show ?thesis by (simp add: data_frame_def Let_def)
qed

lemma cell_of_update [simp]:
  "cell_of (AList.update c v r) k = (if k = c then v else cell_of r k)"
  by (simp add: cell_of_def update_conv')

lemma cell_of_keyed [simp]:
  "cell_of (map (\<lambda>k. (k, f k)) ks) c = (if c \<in> set ks then f c else JNull)"
  by (induction ks) (auto simp: cell_of_def)

lemma apply_series_map:
  "(\<And>x. x \<in> set xs \<Longrightarrow> f (h x) = Inr (v x)) \<Longrightarrow> apply_series f (map h xs) = Inr (map v xs)"
  by (induction xs) simp_all

lemma zip_map_same: "zip (map g ds) (map v ds) = map (\<lambda>d. (g d, v d)) ds"
  by (induction ds) simp_all

lemma df_set_rows:
  "df_set \<lparr>columns = cs, rows = map g ds\<rparr> c (map v ds) =
     \<lparr>columns = add_column c cs, rows = map (\<lambda>d. AList.update c (v d) (g d)) ds\<rparr>"
  by (simp add: df_set_def zip_map_same comp_def)

lemma df_get_rows:
  "c \<in> set cs \<Longrightarrow> df_get \<lparr>columns = cs, rows = map g ds\<rparr> c = Inr (map (\<lambda>d. cell_of (g d) c) ds)"
  by (simp add: df_get_def comp_def)

lemma derive_rows:
  assumes "src \<in> set cs" "\<And>d. d \<in> set ds \<Longrightarrow> f (cell_of (g d) src) = Inr (v d)"
  shows "derive c src f \<lparr>columns = cs, rows = map g ds\<rparr> =
     Inr \<lparr>columns = add_column c cs, rows = map (\<lambda>d. AList.update c (v d) (g d)) ds\<rparr>"
proof -
  have "apply_series f (map (\<lambda>d. cell_of (g d) src) ds) = Inr (map v ds)"
    using assms(2) by (rule apply_series_map)
  then show ?thesis
    by (simp add: derive_def df_get_rows [OF assms(1)] df_set_rows)
qed

lemma derive2_rows:
  assumes "src \<in> set cs" "\<And>d. d \<in> set ds \<Longrightarrow> f (cell_of (g d) src) = Inr (v d)"
  shows "derive2 c1 c2 src f \<lparr>columns = cs, rows = map g ds\<rparr> =
     Inr \<lparr>columns = add_column c2 (add_column c1 cs),
          rows = map (\<lambda>d. AList.update c2 (snd (v d)) (AList.update c1 (fst (v d)) (g d))) ds\<rparr>"
proof -
  have "apply_series f (map (\<lambda>d. cell_of (g d) src) ds) = Inr (map v ds)"
    using assms(2) by (rule apply_series_map)
  moreover have "map fst (map v ds) = map (\<lambda>d. fst (v d)) ds" "map snd (map v ds) = map (\<lambda>d. snd (v d)) ds"
    by simp_all
  ultimately show ?thesis
    by (simp only: derive2_def df_get_rows [OF assms(1)] df_set_rows sum.case)
qed

lemma df_rename_rows:
  "df_rename old new \<lparr>columns = cs, rows = map g ds\<rparr> =
     \<lparr>columns = map (\<lambda>k. if k = old then new else k) cs,
      rows = map (\<lambda>d. map (\<lambda>kv. (if fst kv = old then new else fst kv, snd kv)) (g d)) ds\<rparr>"
  by (simp add: df_rename_def comp_def)

lemma df_select_rows:
  assumes "set sel \<subseteq> set cs"
  shows "df_select sel \<lparr>columns = cs, rows = map g ds\<rparr> =
     Inr \<lparr>columns = concat (map (\<lambda>c. filter (\<lambda>k. k = c) cs) sel),
          rows = map (\<lambda>d. concat (map (\<lambda>c. filter (\<lambda>kv. fst kv = c) (g d)) sel)) ds\<rparr>"
proof -
  have "filter (\<lambda>c. c \<notin> set cs) sel = []" using assms by (auto simp: filter_empty_conv)
  then show ?thesis by (simp add: df_select_def comp_def)
qed

lemma df_where_eq_rows:
  assumes "c \<in> set cs"
  shows "df_where_eq c s \<lparr>columns = cs, rows = map g ds\<rparr> =
     Inr \<lparr>columns = cs, rows = map g (filter (\<lambda>d. cell_of (g d) c = JStr s) ds)\<rparr>"
proof -
  have "map fst (filter (\<lambda>rv. snd rv = JStr s) (zip (map g ds) (map (\<lambda>d. cell_of (g d) c) ds))) =
      map g (filter (\<lambda>d. cell_of (g d) c = JStr s) ds)"
    by (induction ds) simp_all
  then show ?thesis by (simp add: df_where_eq_def df_get_rows [OF assms])
qed

lemma py_get_dict_field:
  "is_dict x \<Longrightarrow> py_get x k JNull = Inr (dict_field k x)"
  by (cases x) simp_all

lemma find_level_walk:
  "list_all is_dict xs \<Longrightarrow>
   find_level xs level =
     Inr (case find (\<lambda>n. py_eq_nat (dict_field ''level'' n) level) xs of
            None \<Rightarrow> (JNull, JNull)
          | Some n \<Rightarrow> (dict_field ''externalID'' n, dict_field ''name'' n))"
  by (induction xs) (simp_all add: py_get_dict_field)

lemma extract_location_details_walk:
  "all_dicts x \<Longrightarrow> extract_location_details level x = Inr (walk level x)"
  by (cases x) (simp_all add: walk_def find_level_walk)

lemma extract_category_details_walk:
  "all_dicts x \<Longrightarrow> extract_category_details level x = Inr (walk level x)"
  by (cases x) (simp_all add: walk_def find_level_walk)

lemma to_datetime_timestamp:
  "seconds_or_null x \<Longrightarrow> to_datetime x = Inr (timestamp x)"
  by (cases x) (simp_all add: timestamp_def)

lemma bayut_link_listing_url:
  "not_list x \<Longrightarrow> bayut_link str_of x = Inr (listing_url str_of x)"
  by (cases x) (simp_all add: listing_url_def)

lemma set_keys_update: "set (map fst (AList.update k v r)) = insert k (set (map fst r))"
  by (induction r) auto

lemma filter_key:
  "distinct (map fst r) \<Longrightarrow>
   filter (\<lambda>kv. fst kv = c) r = (case map_of r c of None \<Rightarrow> [] | Some v \<Rightarrow> [(c, v)])"
proof (induction r)
  case Nil
  then show ?case by simp
next
  case (Cons kv r)
  show ?case
  proof (cases "fst kv = c")
    case True
    with Cons.prems have "c \<notin> fst ` set r" by auto
    then have "filter (\<lambda>kv. fst kv = c) r = []" by (auto simp: filter_empty_conv)
    with True show ?thesis by (cases kv) simp
  next
    case False
    with Cons show ?thesis by (cases kv) simp
  qed
qed

lemma filter_label: "distinct cs \<Longrightarrow> c \<in> set cs \<Longrightarrow> filter (\<lambda>k. k = c) cs = [c]"
  by (induction cs) (auto simp: filter_empty_conv)

lemma select_labels:
  "distinct cs \<Longrightarrow> set sel \<subseteq> set cs \<Longrightarrow> concat (map (\<lambda>c. filter (\<lambda>k. k = c) cs) sel) = sel"
  by (induction sel) (simp_all add: filter_label)

lemma map_of_renamed:
  "new \<notin> fst ` set r \<Longrightarrow>
   map_of (map (\<lambda>kv. (if fst kv = old then new else fst kv, snd kv)) r) k =
     (if k = new then map_of r old else if k = old then None else map_of r k)"
  by (induction r) (auto simp: image_iff)

lemma keys_renamed:
  "map fst (map (\<lambda>kv. (if fst kv = old then new else fst kv, snd kv)) r) =
     map (\<lambda>k. if k = old then new else k) (map fst r)"
  by (induction r) simp_all

lemma distinct_renamed:
  "distinct cs \<Longrightarrow> new \<notin> set cs \<Longrightarrow> distinct (map (\<lambda>k. if k = old then new else k) cs)"
  by (induction cs) (auto simp: image_iff)

lemma set_renamed:
  "c \<in> set (map (\<lambda>k. if k = old then new else k) cs) \<longleftrightarrow>
     (c = new \<and> old \<in> set cs) \<or> (c \<noteq> old \<and> c \<in> set cs)"
  by (induction cs) auto

lemma map_of_keyed:
  "map_of (map (\<lambda>k. (k, f k)) ks) c = (if c \<in> set ks then Some (f c) else None)"
  by (induction ks) auto

end
